theory Spec2Isabelle
  imports Main "HOL-Library.Sublist"
begin

section \<open>Strings as the source uses them\<close>

text \<open>
  JavaScript strings are modelled as HOL strings.  Every delimiter the program looks
  for (\<open>*\<close>, \<open>.\<close>, \<open>/\<close>) is ASCII, so searching for it gives the same split in
  either encoding.
\<close>

definition startsWith :: "string \<Rightarrow> string \<Rightarrow> bool" where
  "startsWith s p = (take (length p) s = p)"

definition endsWith :: "string \<Rightarrow> string \<Rightarrow> bool" where
  "endsWith s p = (length p \<le> length s \<and> drop (length s - length p) s = p)"

text \<open>\<open>s.slice(a, b)\<close> and \<open>s.slice(a)\<close> for indices that are not negative.\<close>

definition slice :: "string \<Rightarrow> nat \<Rightarrow> nat \<Rightarrow> string" where
  "slice s a b = drop a (take b s)"

definition sliceFrom :: "string \<Rightarrow> nat \<Rightarrow> string" where
  "sliceFrom s a = drop a s"

text \<open>\<open>s.indexOf(c)\<close> for a one-character needle: \<open>None\<close> stands for \<open>-1\<close>.\<close>

fun indexOfChar :: "string \<Rightarrow> char \<Rightarrow> nat option" where
  "indexOfChar [] c = None"
| "indexOfChar (x # xs) c =
     (if x = c then Some 0 else map_option Suc (indexOfChar xs c))"

text \<open>\<open>s.includes(c, from)\<close> for a one-character needle.\<close>

definition includesFrom :: "string \<Rightarrow> char \<Rightarrow> nat \<Rightarrow> bool" where
  "includesFrom s c from = (c \<in> set (drop from s))"

text \<open>
  \<open>s.indexOf(needle, position)\<close>: the position is clamped to the length of \<open>s\<close>, then
  the first index at or after it where \<open>needle\<close> occurs is returned.
\<close>

function searchFrom :: "string \<Rightarrow> string \<Rightarrow> nat \<Rightarrow> nat option" where
  "searchFrom s needle i =
     (if length s < i + length needle then None
      else if take (length needle) (drop i s) = needle then Some i
      else searchFrom s needle (Suc i))"
  by pat_completeness auto
termination
  by (relation "measure (\<lambda>(s, needle, i). Suc (length s) - i)") auto

declare searchFrom.simps [simp del]

definition indexOfFrom :: "string \<Rightarrow> string \<Rightarrow> nat \<Rightarrow> nat option" where
  "indexOfFrom s needle position = searchFrom s needle (min position (length s))"

text \<open>\<open>s.split(c)\<close> for a one-character separator; the result is never empty.\<close>

fun split_str :: "char \<Rightarrow> string \<Rightarrow> string list" where
  "split_str c [] = [[]]"
| "split_str c (x # xs) =
     (if x = c then [] # split_str c xs
      else (case split_str c xs of
              [] \<Rightarrow> [[x]]
            | y # ys \<Rightarrow> (x # y) # ys))"

text \<open>\<open>parts.join(sep)\<close>.\<close>

fun join_str :: "string \<Rightarrow> string list \<Rightarrow> string" where
  "join_str sep [] = []"
| "join_str sep [x] = x"
| "join_str sep (x # y # ys) = x @ sep @ join_str sep (y # ys)"

text \<open>\<open>s.replace(a, b)\<close> for one-character strings: only the first occurrence.\<close>

fun replaceFirst :: "char \<Rightarrow> char \<Rightarrow> string \<Rightarrow> string" where
  "replaceFirst a b [] = []"
| "replaceFirst a b (x # xs) = (if x = a then b # xs else x # replaceFirst a b xs)"

section \<open>Data model\<close>

text \<open>
  A parsed JSON value.  An object carries its own properties in the order of
  \<open>Object.keys\<close>; the keys of a JavaScript object are pairwise distinct.  Of a number
  only its truthiness is ever inspected.
\<close>

datatype json =
    JNull
  | JBool bool
  | JNum int
  | JStr string
  | JArr "json list"
  | JObj "(string \<times> json) list"

text \<open>A segment of a JSON path: \<open>number | string\<close>.\<close>

datatype segment = Key string | Idx nat

datatype error = AssertionError

text \<open>\<open>Info\<close>: where the walk is.\<close>

record info =
  conditions :: "string list option"
  path :: "segment list"
  pathOrder :: "nat list"
  specifier :: "string option"

text \<open>\<open>RawExport\<close>.\<close>

record rawExport =
  exp_conditions :: "string list option"
  exp_exists :: bool
  exp_filePath :: string
  exp_globbed :: bool
  exp_jsonPath :: "segment list"
  exp_jsonPathOrder :: "nat list"
  exp_specifier :: string
  exp_url :: string

text \<open>\<open>NegatedExport\<close>.\<close>

record negatedExport =
  neg_conditions :: "string list option"
  neg_jsonPath :: "segment list"
  neg_jsonPathOrder :: "nat list"
  neg_specifier :: string

text \<open>
  A message of the file.  The place of a message is computed by the source from the
  JSON path it is given, so the path is kept; of the reason, the values spliced
  into the text are kept, in the order they occur (\<open>displayPath\<close> of the path left out).
\<close>

record message =
  msg_ruleId :: string
  msg_jsonPath :: "segment list"
  msg_reason :: "string list"

text \<open>\<open>State\<close>: the fields the resolver reads and writes.\<close>

record state =
  exports :: "rawExport list"
  negatedExports :: "negatedExport list"
  packagedFiles :: "string list"
  messages :: "message list"

text \<open>
  What the program takes from outside: the glob matcher (\<open>Minimatch\<close> with the options
  the source passes; first argument the pattern), URL resolution against the package
  URL, the file-system probe \<open>fs.access\<close>, and the path separator of the platform.
\<close>

record world =
  minimatch :: "string \<Rightarrow> string \<Rightarrow> bool"
  resolveUrl :: "string \<Rightarrow> string"
  fsAccess :: "string \<Rightarrow> bool"
  pathSep :: char

text \<open>\<open>MutuallyExclusiveInfo\<close> and the table of the source.\<close>

record mutuallyExclusiveInfo =
  mx_conditions :: "string list"
  mx_exhaustive :: bool

definition mutuallyExclusiveConditions :: "mutuallyExclusiveInfo list" where
  "mutuallyExclusiveConditions =
     [\<lparr>mx_conditions = [''development'', ''production''], mx_exhaustive = False\<rparr>,
      \<lparr>mx_conditions = [''import'', ''require''], mx_exhaustive = True\<rparr>,
      \<lparr>mx_conditions = [''node'', ''node-addons''], mx_exhaustive = False\<rparr>,
      \<lparr>mx_conditions =
         [''browser'', ''edge-routine'', ''workerd'', ''deno'', ''lagon'', ''react-native'',
          ''moddable'', ''netlify'', ''electron'', ''node'', ''bun'', ''react-server'',
          ''edge-light'', ''fastly''],
       mx_exhaustive = False\<rparr>]"

section \<open>Messages, entries and the file-system probe\<close>

text \<open>
  \<open>message\<close>: append a message to the file.  The source looks the JSON path up in the
  syntax tree of the same document to find the place; every path it passes was read off
  that document, so the lookup is taken to succeed.
\<close>

definition message :: "state \<Rightarrow> string list \<Rightarrow> string \<Rightarrow> segment list \<Rightarrow> state" where
  "message st reason ruleId jsonPath =
     st\<lparr>messages := messages st @
        [\<lparr>msg_ruleId = ruleId, msg_jsonPath = jsonPath, msg_reason = reason\<rparr>]\<rparr>"

text \<open>
  \<open>checkExists\<close>: the export is the object already pushed on \<open>state.exports\<close>, here the
  one at index \<open>i\<close>.  In the source the probe completes asynchronously; it touches only
  its own export and appends its own message, and every pass after the walk waits for
  it, so it is run in place.
\<close>

definition checkExists :: "world \<Rightarrow> state \<Rightarrow> nat \<Rightarrow> state" where
  "checkExists w st i =
     (let theExport = exports st ! i in
      if fsAccess w (exp_url theExport)
      then st\<lparr>exports := (exports st)[i := theExport\<lparr>exp_exists := True\<rparr>]\<rparr>
      else message (st\<lparr>exports := (exports st)[i := theExport\<lparr>exp_exists := False\<rparr>]\<rparr>)
             [exp_filePath theExport, exp_specifier theExport]
             ''exports-path-not-found'' (exp_jsonPath theExport))"

text \<open>
  \<open>addResolved\<close>: \<open>info\<close> with the two extra fields of \<open>AddInfo\<close> as arguments;
  the value \<open>null\<close> is \<open>None\<close>.
\<close>

definition addResolved ::
  "world \<Rightarrow> state \<Rightarrow> info \<Rightarrow> bool \<Rightarrow> bool \<Rightarrow> string \<Rightarrow> string option \<Rightarrow> state" where
  "addResolved w st info definitelyExists explicitlyDefined spec value =
     (case value of
        None \<Rightarrow>
          st\<lparr>negatedExports := negatedExports st @
             [\<lparr>neg_conditions = conditions info, neg_jsonPath = path info,
               neg_jsonPathOrder = pathOrder info, neg_specifier = spec\<rparr>]\<rparr>
      | Some v \<Rightarrow>
          (let theExport =
                 \<lparr>exp_conditions = conditions info, exp_exists = False, exp_filePath = v,
                  exp_globbed = (\<not> explicitlyDefined), exp_jsonPath = path info,
                  exp_jsonPathOrder = pathOrder info, exp_specifier = spec,
                  exp_url = resolveUrl w v\<rparr>;
               i = length (exports st);
               st1 = st\<lparr>exports := exports st @ [theExport]\<rparr>
           in if definitelyExists \<or> v \<in> set (packagedFiles st1)
              then st1\<lparr>exports := (exports st1)[i := theExport\<lparr>exp_exists := True\<rparr>]\<rparr>
              else checkExists w st1 i))"

section \<open>Wildcards\<close>

text \<open>
  The \<open>while\<close> loop of \<open>findWildcardReplacements\<close> that collects the options;
  \<open>maybeEnd\<close> is \<open>None\<close> for \<open>-1\<close>.  The source enters the loop only when \<open>second\<close>
  is not the empty string.
\<close>

function optionsLoop :: "string \<Rightarrow> string \<Rightarrow> nat \<Rightarrow> nat option \<Rightarrow> string list" where
  "optionsLoop filePath second start maybeEnd =
     (case maybeEnd of
        None \<Rightarrow> []
      | Some e \<Rightarrow>
          if second = [] then []
          else slice filePath start e #
               optionsLoop filePath second start (indexOfFrom filePath second (Suc e)))"
  by pat_completeness auto
termination
proof (relation "measure (\<lambda>(filePath, second, start, maybeEnd).
          case maybeEnd of None \<Rightarrow> 0 | Some e \<Rightarrow> Suc (length filePath - e))")
  show "wf (measure (\<lambda>(filePath, second, start, maybeEnd).
          case maybeEnd of None \<Rightarrow> 0 | Some e \<Rightarrow> Suc (length filePath - e)))"
    by simp
next
  fix filePath second :: string and start :: nat and maybeEnd :: "nat option" and e :: nat
  assume m: "maybeEnd = Some e" and ne: "second \<noteq> []"
  have ge: "searchFrom s needle i = Some j \<Longrightarrow> i \<le> j" for s needle i j
  proof (induction s needle i rule: searchFrom.induct)
    case (1 s needle i)
    then show ?case
      by (subst (asm) (2) searchFrom.simps) (auto split: if_splits dest: Suc_leD)
  qed
  have bound: "searchFrom s needle i = Some j \<Longrightarrow> j + length needle \<le> length s"
    for s needle i j
  proof (induction s needle i rule: searchFrom.induct)
    case (1 s needle i)
    then show ?case
      by (subst (asm) (2) searchFrom.simps) (auto split: if_splits)
  qed
  show "((filePath, second, start, indexOfFrom filePath second (Suc e)),
         (filePath, second, start, maybeEnd))
        \<in> measure (\<lambda>(filePath, second, start, maybeEnd).
             case maybeEnd of None \<Rightarrow> 0 | Some e \<Rightarrow> Suc (length filePath - e))"
  proof (cases "indexOfFrom filePath second (Suc e)")
    case None
    then show ?thesis using m by simp
  next
    case (Some j)
    then have s: "searchFrom filePath second (min (Suc e) (length filePath)) = Some j"
      by (simp add: indexOfFrom_def)
    from bound [OF s] ne have "j < length filePath"
      by (cases second) auto
    moreover from ge [OF s] this have "e < j"
      by (auto simp: min_def split: if_splits)
    ultimately show ?thesis using m Some by simp
  qed
qed

declare optionsLoop.simps [simp del]

text \<open>The body of the loop over the file paths: the replacement found for one file, if any.\<close>

definition wildcardReplacement :: "string list \<Rightarrow> string \<Rightarrow> error + string option" where
  "wildcardReplacement parts filePath =
     (case parts of
        [] \<Rightarrow> Inl AssertionError
      | first # rest \<Rightarrow>
          if slice filePath 0 (length first) \<noteq> first then Inl AssertionError
          else (case rest of
                  [] \<Rightarrow> Inl AssertionError
                | second # _ \<Rightarrow>
                    (let start = length first;
                         options =
                           (if second \<noteq> []
                            then optionsLoop filePath second start
                                   (indexOfFrom filePath second start)
                            else []) @ [sliceFrom filePath start]
                     in Inr (find (\<lambda>option. join_str option parts = filePath) options))))"

fun findWildcardReplacementsLoop ::
  "string list \<Rightarrow> string list \<Rightarrow> string list \<Rightarrow> error + string list" where
  "findWildcardReplacementsLoop parts results [] = Inr results"
| "findWildcardReplacementsLoop parts results (filePath # filePaths) =
     (case wildcardReplacement parts filePath of
        Inl e \<Rightarrow> Inl e
      | Inr None \<Rightarrow> findWildcardReplacementsLoop parts results filePaths
      | Inr (Some option) \<Rightarrow>
          findWildcardReplacementsLoop parts (results @ [option]) filePaths)"

definition findWildcardReplacements :: "string list \<Rightarrow> string list \<Rightarrow> error + string list" where
  "findWildcardReplacements parts filePaths = findWildcardReplacementsLoop parts [] filePaths"

text \<open>
  \<open>addDynamic\<close>: the specifier is the pair \<open>[before, after]\<close>; every entry is added as
  definitely existing and not explicitly defined.
\<close>

definition addDynamic ::
  "world \<Rightarrow> state \<Rightarrow> info \<Rightarrow> string \<times> string \<Rightarrow> string list \<Rightarrow> error + state" where
  "addDynamic w st info spec valueParts =
     (let results = filter (minimatch w (join_str ''**/*'' valueParts)) (packagedFiles st) in
      if results = []
      then Inr (message st [join_str ''*'' valueParts]
                  ''exports-path-wildcard-not-found'' (path info))
      else (case findWildcardReplacements valueParts results of
              Inl e \<Rightarrow> Inl e
            | Inr replacements \<Rightarrow>
                Inr (foldl (\<lambda>s replacement.
                       addResolved w s info True False
                         (fst spec @ replacement @ snd spec)
                         (Some (join_str replacement valueParts)))
                     st replacements)))"

text \<open>\<open>info.specifier || '.'\<close>: an absent or empty specifier gives \<open>.\<close>.\<close>

definition specifierOrDot :: "info \<Rightarrow> string" where
  "specifierOrDot info =
     (case specifier info of None \<Rightarrow> ''.'' | Some s \<Rightarrow> if s = [] then ''.'' else s)"

text \<open>
  \<open>addValue\<close>: a value that is neither an array nor an object.  The text of an invalid
  value (\<open>JSON.stringify\<close>) is not kept in the reason.
\<close>

definition addValue :: "world \<Rightarrow> state \<Rightarrow> info \<Rightarrow> json \<Rightarrow> error + state" where
  "addValue w st info exportsValue =
     (let value = (case exportsValue of JStr s \<Rightarrow> Some s | _ \<Rightarrow> None) in
      if exportsValue \<noteq> JNull \<and> value = None
      then Inr (message st [] ''exports-value-invalid'' (path info))
      else if value \<noteq> None \<and> \<not> startsWith (the value) ''./''
      then Inr (message st [the value] ''exports-path-unprefixed'' (path info))
      else
        (let spec = specifierOrDot info;
             specifierAsterisk = indexOfChar spec CHR ''*''
         in if exportsValue = JNull \<or> specifierAsterisk = None
            then Inr (addResolved w st info False True spec value)
            else if includesFrom spec CHR ''*'' (Suc (the specifierAsterisk))
            then Inr (message st [spec] ''exports-specifier-wildcard-invalid'' (path info))
            else
              (let valueAsterisk = indexOfChar (the value) CHR ''*'' in
               if valueAsterisk = None
               then Inr (addResolved w
                           (message st [spec, the value]
                              ''exports-specifier-wildcard-useless'' (path info))
                           info False True spec value)
               else addDynamic w st info
                      (slice spec 0 (the specifierAsterisk),
                       sliceFrom spec (Suc (the specifierAsterisk)))
                      (split_str CHR ''*'' (the value)))))"

section \<open>The walk over the export map\<close>

text \<open>
  The first loop of \<open>resolveExportsObject\<close>: whether the keys start with a dot
  (\<open>dots\<close>, \<open>None\<close> while undefined) and whether they disagree (\<open>mixed\<close>).
\<close>

fun dotsLoop :: "string list \<Rightarrow> bool option \<Rightarrow> bool \<Rightarrow> bool option \<times> bool" where
  "dotsLoop [] dots mixed = (dots, mixed)"
| "dotsLoop (key # keys) dots mixed =
     (let dot = startsWith key ''.'' in
      case dots of
        None \<Rightarrow> dotsLoop keys (Some dot) mixed
      | Some d \<Rightarrow> if d \<noteq> dot then dotsLoop keys dots True else dotsLoop keys dots mixed)"

text \<open>Truthiness of \<open>info.specifier\<close>.\<close>

definition specifierSet :: "info \<Rightarrow> bool" where
  "specifierSet info = (case specifier info of None \<Rightarrow> False | Some s \<Rightarrow> s \<noteq> [])"

text \<open>\<open>resolveExportsConditions\<close>, before the loop: the sole key \<open>default\<close>.\<close>

definition conditionsVerbose :: "state \<Rightarrow> info \<Rightarrow> string list \<Rightarrow> state" where
  "conditionsVerbose st info keys =
     (if length keys = 1 \<and> hd keys = ''default''
      then message st [] ''exports-conditions-verbose'' (path info)
      else st)"

text \<open>
  \<open>resolveExportsConditions\<close>, before the loop: a \<open>types\<close> condition that repeats
  what TypeScript derives from \<open>default\<close>.
\<close>

definition expectedTypes :: "string \<Rightarrow> string option" where
  "expectedTypes defaultPath =
     (let parts0 = split_str CHR ''.'' defaultPath;
          extname = last parts0;
          parts = butlast parts0
      in if extname = ''js'' \<or> extname = ''cjs'' \<or> extname = ''mjs''
         then Some (join_str ''.'' (parts @ [''d'', replaceFirst CHR ''j'' CHR ''t'' extname]))
         else None)"

definition typesVerbose :: "state \<Rightarrow> info \<Rightarrow> (string \<times> json) list \<Rightarrow> state" where
  "typesVerbose st info exportsValue =
     (let keys = map fst exportsValue in
      if ''default'' \<in> set keys \<and> ''types'' \<in> set keys
      then (case (map_of exportsValue ''default'', map_of exportsValue ''types'') of
              (Some (JStr d), Some (JStr t)) \<Rightarrow>
                if expectedTypes d = Some t
                then message st [] ''exports-types-verbose'' (path info @ [Key ''types''])
                else st
            | _ \<Rightarrow> st)
      else st)"

text \<open>
  \<open>resolveExportsConditions\<close>, in the loop: the checks of one condition against the
  table.  Within one group the scan over the active conditions stops at the first one
  that belongs to the group (the \<open>break\<close>); the scan over the groups goes on.
\<close>

definition exclusiveCheck ::
  "state \<Rightarrow> info \<Rightarrow> string \<Rightarrow> mutuallyExclusiveInfo \<Rightarrow> state" where
  "exclusiveCheck st info condition exclusive =
     (case conditions info of
        None \<Rightarrow> st
      | Some active \<Rightarrow>
          if condition \<notin> set (mx_conditions exclusive) then st
          else (case find (\<lambda>other. other \<in> set (mx_conditions exclusive)) active of
                  None \<Rightarrow> st
                | Some other \<Rightarrow>
                    message st [condition, other] ''exports-conditions-mutually-exclusive''
                      (path info @ [Key condition])))"

definition exclusiveChecks :: "state \<Rightarrow> info \<Rightarrow> string \<Rightarrow> state" where
  "exclusiveChecks st info condition =
     foldl (\<lambda>s exclusive. exclusiveCheck s info condition exclusive)
       st mutuallyExclusiveConditions"

text \<open>\<open>resolveExportsConditions\<close>, after the loop.\<close>

definition exhaustiveKeys :: "string list \<Rightarrow> bool" where
  "exhaustiveKeys keys =
     list_ex (\<lambda>exclusive. mx_exhaustive exclusive \<and>
                list_all (\<lambda>d. d \<in> set keys) (mx_conditions exclusive))
       mutuallyExclusiveConditions"

definition conditionsFinish :: "state \<Rightarrow> info \<Rightarrow> string list \<Rightarrow> error + state" where
  "conditionsFinish st info keys =
     (if keys = [] \<or> last keys = [] then Inl AssertionError
      else if ''default'' \<in> set keys
      then (if last keys \<noteq> ''default''
            then Inr (message st [] ''exports-conditions-default-misplaced''
                        (path info @ [Key (last keys)]))
            else Inr st)
      else if \<not> exhaustiveKeys keys
      then Inr (message st [specifierOrDot info] ''exports-conditions-default-missing''
                  (path info))
      else Inr st)"

text \<open>\<open>resolveExportsSpecifiers\<close>, in the loop: the warning for an extension.\<close>

definition extensionCheck :: "state \<Rightarrow> info \<Rightarrow> string list \<Rightarrow> string \<Rightarrow> state" where
  "extensionCheck st info keys spec =
     (let parts0 = split_str CHR ''.'' spec;
          extension = last parts0;
          parts = butlast parts0
      in if extension \<noteq> [] \<and> CHR ''/'' \<notin> set extension
         then (let rest = join_str ''.'' parts in
               message st ([extension, spec] @ (if rest \<in> set keys then [] else [rest]))
                 ''exports-specifier-extension'' (path info))
         else st)"

text \<open>
  The recursive functions.  The loops over \<open>keys\<close> walk the properties of the object
  in order, each key with its value \<open>exportsValue[key]\<close>.  A failed assertion
  rejects the promise of the function it is in, and with it every promise that awaits
  it, up to the caller of the resolver.
\<close>

function (sequential) resolveExports :: "world \<Rightarrow> state \<Rightarrow> info \<Rightarrow> json \<Rightarrow> error + state"
  and resolveExportsList :: "world \<Rightarrow> state \<Rightarrow> info \<Rightarrow> json list \<Rightarrow> error + state"
  and resolveExportsObject ::
    "world \<Rightarrow> state \<Rightarrow> info \<Rightarrow> (string \<times> json) list \<Rightarrow> error + state"
  and resolveExportsConditions ::
    "world \<Rightarrow> state \<Rightarrow> info \<Rightarrow> (string \<times> json) list \<Rightarrow> error + state"
  and conditionsLoop ::
    "world \<Rightarrow> state \<Rightarrow> info \<Rightarrow> (string \<times> json) list \<Rightarrow> nat \<Rightarrow> error + state"
  and resolveExportsSpecifiers ::
    "world \<Rightarrow> state \<Rightarrow> info \<Rightarrow> (string \<times> json) list \<Rightarrow> error + state"
  and specifiersLoop ::
    "world \<Rightarrow> state \<Rightarrow> info \<Rightarrow> string list \<Rightarrow> (string \<times> json) list \<Rightarrow> nat \<Rightarrow> error + state"
where
  "resolveExports w st info (JArr exportsValue) = resolveExportsList w st info exportsValue"
| "resolveExports w st info (JObj exportsValue) = resolveExportsObject w st info exportsValue"
| "resolveExports w st info JNull = addValue w st info JNull"
| "resolveExports w st info (JBool b) = addValue w st info (JBool b)"
| "resolveExports w st info (JNum n) = addValue w st info (JNum n)"
| "resolveExports w st info (JStr s) = addValue w st info (JStr s)"
| "resolveExportsList w st info [] =
     Inr (message st [] ''exports-alternatives-empty'' (path info))"
| "resolveExportsList w st info (first # others) =
     resolveExports w (message st [] ''exports-alternatives'' (path info))
       (info\<lparr>path := path info @ [Idx 0], pathOrder := pathOrder info @ [0]\<rparr>)
       first"
| "resolveExportsObject w st info exportsValue =
     (let keys = map fst exportsValue;
          dots = fst (dotsLoop keys None False);
          mixed = snd (dotsLoop keys None False)
      in if dots = None
         then Inr (message st [] ''exports-object-empty'' (path info))
         else if mixed
         then Inr (message st [] ''exports-object-mixed'' (path info))
         else if the dots \<and> specifierSet info
         then Inr (message st keys ''exports-specifier-nested'' (path info))
         else if the dots
         then resolveExportsSpecifiers w st info exportsValue
         else resolveExportsConditions w st info exportsValue)"
| "resolveExportsConditions w st info exportsValue =
     (let keys = map fst exportsValue in
      case conditionsLoop w
             (typesVerbose (conditionsVerbose st info keys) info exportsValue)
             info exportsValue 0 of
        Inl e \<Rightarrow> Inl e
      | Inr st1 \<Rightarrow> conditionsFinish st1 info keys)"
| "conditionsLoop w st info [] index = Inr st"
| "conditionsLoop w st info ((condition, value) # rest) index =
     (case resolveExports w (exclusiveChecks st info condition)
             (info\<lparr>conditions :=
                     Some ((case conditions info of None \<Rightarrow> [] | Some active \<Rightarrow> active)
                           @ [condition]),
                   path := path info @ [Key condition],
                   pathOrder := pathOrder info @ [index]\<rparr>)
             value of
        Inl e \<Rightarrow> Inl e
      | Inr st1 \<Rightarrow> conditionsLoop w st1 info rest (Suc index))"
| "resolveExportsSpecifiers w st info exportsValue =
     (let keys = map fst exportsValue in
      specifiersLoop w
        (if length keys = 1 \<and> hd keys = ''.''
         then message st [] ''exports-specifiers-verbose'' (path info)
         else st)
        info keys exportsValue 0)"
| "specifiersLoop w st info keys [] index = Inr st"
| "specifiersLoop w st info keys ((spec, value) # rest) index =
     (case resolveExports w (extensionCheck st info keys spec)
             (info\<lparr>path := path info @ [Key spec],
                   pathOrder := pathOrder info @ [index],
                   specifier := Some spec\<rparr>)
             value of
        Inl e \<Rightarrow> Inl e
      | Inr st1 \<Rightarrow> specifiersLoop w st1 info keys rest (Suc index))"

  by pat_completeness auto
termination
  by (relation "measure (\<lambda>x. case x of
        Inl (Inl (w, st, info, v)) \<Rightarrow> 4 * size v
      | Inl (Inr (Inl (w, st, info, xs))) \<Rightarrow> 4 * size_list size xs + 3
      | Inl (Inr (Inr (w, st, info, kvs))) \<Rightarrow>
          4 * size_list (size_prod (\<lambda>_. 0) size) kvs + 3
      | Inr (Inl (Inl (w, st, info, kvs))) \<Rightarrow>
          4 * size_list (size_prod (\<lambda>_. 0) size) kvs + 2
      | Inr (Inl (Inr (w, st, info, kvs, index))) \<Rightarrow>
          4 * size_list (size_prod (\<lambda>_. 0) size) kvs + 1
      | Inr (Inr (Inl (w, st, info, kvs))) \<Rightarrow>
          4 * size_list (size_prod (\<lambda>_. 0) size) kvs + 2
      | Inr (Inr (Inr (w, st, info, keys, kvs, index))) \<Rightarrow>
          4 * size_list (size_prod (\<lambda>_. 0) size) kvs + 1)") auto

section \<open>Negated exports\<close>

text \<open>\<open>arrayEquivalent\<close>.\<close>

definition arrayEquivalent :: "'a list \<Rightarrow> 'a list \<Rightarrow> bool" where
  "arrayEquivalent left right =
     (length left = length right \<and> list_all (\<lambda>value. value \<in> set right) left)"

text \<open>The condition under which the loop over \<open>state.exports\<close> removes an export.\<close>

definition negationMatches :: "negatedExport \<Rightarrow> rawExport \<Rightarrow> bool" where
  "negationMatches negated theExport =
     (let asteriskIndex = indexOfChar (neg_specifier negated) CHR ''*'';
          head = (case asteriskIndex of
                    None \<Rightarrow> neg_specifier negated
                  | Some i \<Rightarrow> slice (neg_specifier negated) 0 i);
          tail = (case asteriskIndex of
                    None \<Rightarrow> None
                  | Some i \<Rightarrow> Some (sliceFrom (neg_specifier negated) (Suc i)))
      in (case tail of
            None \<Rightarrow> exp_specifier theExport = head
          | Some t \<Rightarrow> startsWith (exp_specifier theExport) head \<and>
                      endsWith (exp_specifier theExport) t) \<and>
         (case (exp_conditions theExport, neg_conditions negated) of
            (Some left, Some right) \<Rightarrow> arrayEquivalent left right
          | (None, None) \<Rightarrow> True
          | _ \<Rightarrow> False))"

text \<open>
  The \<open>while\<close> loop with \<open>splice\<close>; \<open>i\<close> is the index the next round looks at
  (\<open>index + 1\<close> of the source).
\<close>

function negateLoop ::
  "negatedExport \<Rightarrow> rawExport list \<Rightarrow> nat \<Rightarrow> bool \<Rightarrow> rawExport list \<times> bool" where
  "negateLoop negated exps i found =
     (if i < length exps
      then (if negationMatches negated (exps ! i)
            then negateLoop negated (take i exps @ drop (Suc i) exps) i True
            else negateLoop negated exps (Suc i) found)
      else (exps, found))"
  by pat_completeness auto
termination
  by (relation "measure (\<lambda>(negated, exps, i, found). length exps - i)") auto

declare negateLoop.simps [simp del]

definition removeNegated :: "state \<Rightarrow> negatedExport \<Rightarrow> state" where
  "removeNegated st negated =
     (let r = negateLoop negated (exports st) 0 False;
          st1 = st\<lparr>exports := fst r\<rparr>
      in if \<not> snd r
         then message st1 [neg_specifier negated] ''exports-negated-missing''
                (neg_jsonPath negated)
         else st1)"

definition removeAllNegated :: "state \<Rightarrow> state" where
  "removeAllNegated st = foldl removeNegated st (negatedExports st)"

section \<open>The legacy fields\<close>

definition mainDefaults :: "string list" where
  "mainDefaults = [''./index.js'', ''./index.json'', ''./index.node'']"

definition mainSuffixes :: "string list" where
  "mainSuffixes =
     [''.js'', ''.json'', ''.node'', ''/index.js'', ''/index.json'', ''/index.node'']"

definition rootInfo :: "segment list \<Rightarrow> nat list \<Rightarrow> string option \<Rightarrow> info" where
  "rootInfo p po s = \<lparr>conditions = None, path = p, pathOrder = po, specifier = s\<rparr>"

text \<open>
  \<open>resolveMainExport\<close>: \<open>main\<close> and \<open>type\<close> are the fields of the package data, \<open>None\<close>
  when undefined.  The three parts below are the part that resolves a given \<open>main\<close>
  (giving the state, \<open>mainFound\<close> and \<open>warned\<close>), and the whole.
\<close>

definition resolveMainField ::
  "state \<Rightarrow> json option \<Rightarrow> json option \<Rightarrow> state \<times> string option \<times> bool" where
  "resolveMainField st main type =
     (case main of
        None \<Rightarrow> (st, None, False)
      | Some (JStr m) \<Rightarrow>
          (let normal = (if startsWith m ''./'' then m else ''./'' @ m) in
           if normal \<in> set (packagedFiles st)
           then (message st [normal] ''main'' [Key ''main''], Some normal, False)
           else (case find (\<lambda>option. option \<in> set (packagedFiles st))
                        (map (\<lambda>suffix. normal @ suffix) mainSuffixes) of
                   Some found \<Rightarrow>
                     if type = Some (JStr ''module'')
                     then (message st [m, found] ''main-resolve-module'' [Key ''main''],
                           None, True)
                     else (message st [m, found] ''main-resolve-commonjs'' [Key ''main''],
                           Some found, False)
                 | None \<Rightarrow> (message st [m] ''main-not-found'' [Key ''main''], None, True)))
      | Some other \<Rightarrow> (message st [] ''main-invalid'' [Key ''main''], None, True))"

definition resolveMainExport :: "world \<Rightarrow> state \<Rightarrow> json option \<Rightarrow> json option \<Rightarrow> state" where
  "resolveMainExport w st main type =
     (case resolveMainField st main type of
        (st1, Some mainFound, warned) \<Rightarrow>
          addResolved w st1 (rootInfo [Key ''main''] [0] None) True True ''.'' (Some mainFound)
      | (st1, None, warned) \<Rightarrow>
          (case find (\<lambda>option. option \<in> set (packagedFiles st1)) mainDefaults of
             Some mainFound \<Rightarrow>
               addResolved w (message st1 [mainFound] ''main-inferred'' [])
                 (rootInfo [] [] None) True False ''.'' (Some mainFound)
           | None \<Rightarrow>
               if \<not> warned then message st1 [] ''main-missing'' [] else st1))"

definition resolvePackagedFiles :: "world \<Rightarrow> state \<Rightarrow> state" where
  "resolvePackagedFiles w st =
     foldl (\<lambda>s file. addResolved w s (rootInfo [] [] (Some file)) True False file (Some file))
       st (packagedFiles st)"

section \<open>Packaging check and order\<close>

text \<open>The loop that reports exports that exist but are not packed.\<close>

definition npmIgnored :: "state \<Rightarrow> rawExport \<Rightarrow> state" where
  "npmIgnored st theExport =
     (if exp_exists theExport \<and> exp_filePath theExport \<notin> set (packagedFiles st)
      then message st [exp_filePath theExport] ''npm-ignored'' (exp_jsonPath theExport)
      else st)"

definition checkNpmIgnored :: "state \<Rightarrow> state" where
  "checkNpmIgnored st = foldl npmIgnored st (exports st)"

text \<open>
  The loop of \<open>compareExport\<close> over the two orders: an index past the end of a
  sequence reads as \<open>0\<close> (\<open>jsonPathOrder[index] || 0\<close>).
\<close>

fun comparePathOrder :: "nat list \<Rightarrow> nat list \<Rightarrow> int" where
  "comparePathOrder [] [] = 0"
| "comparePathOrder (l # ls) [] =
     (if int l - 0 \<noteq> 0 then int l - 0 else comparePathOrder ls [])"
| "comparePathOrder [] (r # rs) =
     (if 0 - int r \<noteq> 0 then 0 - int r else comparePathOrder [] rs)"
| "comparePathOrder (l # ls) (r # rs) =
     (if int l - int r \<noteq> 0 then int l - int r else comparePathOrder ls rs)"

text \<open>\<open>compareExport\<close>; \<open>String.prototype.localeCompare\<close> is given from outside.\<close>

definition compareExport ::
  "(string \<Rightarrow> string \<Rightarrow> int) \<Rightarrow> rawExport \<Rightarrow> rawExport \<Rightarrow> int" where
  "compareExport localeCompare left right =
     (let difference = comparePathOrder (exp_jsonPathOrder left) (exp_jsonPathOrder right) in
      if difference \<noteq> 0 then difference
      else (let segments =
                  int (length (split_str CHR ''/'' (exp_specifier left))) -
                  int (length (split_str CHR ''/'' (exp_specifier right)))
            in if segments \<noteq> 0 then segments
               else localeCompare (exp_specifier left) (exp_specifier right)))"

text \<open>
  \<open>Array.prototype.sort\<close> with a comparator.  The language fixes the result for a
  consistent comparator: the sorted permutation in which elements that compare equal
  keep their order.  Insertion from the right computes it.
\<close>

fun insertCompare :: "('a \<Rightarrow> 'a \<Rightarrow> int) \<Rightarrow> 'a \<Rightarrow> 'a list \<Rightarrow> 'a list" where
  "insertCompare cmp x [] = [x]"
| "insertCompare cmp x (y # ys) =
     (if cmp x y \<le> 0 then x # y # ys else y # insertCompare cmp x ys)"

definition sortCompare :: "('a \<Rightarrow> 'a \<Rightarrow> int) \<Rightarrow> 'a list \<Rightarrow> 'a list" where
  "sortCompare cmp xs = foldr (insertCompare cmp) xs []"

section \<open>The entry point\<close>

text \<open>The fields of the package data that are read; \<open>None\<close> is an absent field.\<close>

record packageJson =
  pkg_name :: "json option"
  pkg_type :: "json option"
  pkg_files :: "json option"
  pkg_exports :: "json option"
  pkg_main :: "json option"

text \<open>Truthiness of a JSON value.\<close>

fun truthy :: "json \<Rightarrow> bool" where
  "truthy JNull = False"
| "truthy (JBool b) = b"
| "truthy (JNum n) = (n \<noteq> 0)"
| "truthy (JStr s) = (s \<noteq> [])"
| "truthy (JArr xs) = True"
| "truthy (JObj kvs) = True"

definition pathToPosixPath :: "world \<Rightarrow> string \<Rightarrow> string" where
  "pathToPosixPath w value = ''./'' @ join_str ''/'' (split_str (pathSep w) value)"

definition checkFields :: "state \<Rightarrow> packageJson \<Rightarrow> state" where
  "checkFields st packageData =
     (let st1 = (case pkg_name packageData of
                   Some (JStr n) \<Rightarrow> st
                 | _ \<Rightarrow> message st [] ''name-missing'' []);
          st2 = (case pkg_type packageData of
                   None \<Rightarrow> message st1 [] ''type-missing'' []
                 | Some t \<Rightarrow>
                     if \<not> truthy t then message st1 [] ''type-missing'' []
                     else if t \<noteq> JStr ''commonjs'' \<and> t \<noteq> JStr ''module''
                     then message st1 [] ''type-invalid'' [Key ''type'']
                     else st1)
      in if pkg_files packageData = None
         then message st2 [] ''files-missing'' []
         else st2)"

definition checkMain :: "state \<Rightarrow> packageJson \<Rightarrow> state" where
  "checkMain st packageData =
     (let st1 = (if \<not> list_ex (\<lambda>d. exp_specifier d = ''.'') (exports st)
                 then message st [] ''exports-main-missing'' []
                 else st)
      in if pkg_main packageData \<noteq> None
         then message st1 [] ''main-extra'' [Key ''main'']
         else st1)"

text \<open>
  \<open>packageExports\<close>, from the parsed package data and the list of packed files to the
  state after the exports are sorted.  The messages are left in the order they were
  made (the source sorts them by place at the end).
\<close>

definition packageExports ::
  "world \<Rightarrow> (string \<Rightarrow> string \<Rightarrow> int) \<Rightarrow> packageJson \<Rightarrow> string list \<Rightarrow> error + state" where
  "packageExports w localeCompare packageData packedFilesRaw =
     (let st0 = \<lparr>exports = [], negatedExports = [],
                 packagedFiles = map (pathToPosixPath w) packedFilesRaw, messages = []\<rparr>;
          st1 = checkFields st0 packageData;
          walked =
            (case pkg_exports packageData of
               Some exportsValue \<Rightarrow>
                 (case resolveExports w st1 (rootInfo [Key ''exports''] [0] None) exportsValue of
                    Inl e \<Rightarrow> Inl e
                  | Inr st2 \<Rightarrow> Inr (checkMain (removeAllNegated st2) packageData))
             | None \<Rightarrow>
                 Inr (resolvePackagedFiles w
                        (resolveMainExport w st1 (pkg_main packageData) (pkg_type packageData))))
      in case walked of
           Inl e \<Rightarrow> Inl e
         | Inr st3 \<Rightarrow>
             (let st4 = checkNpmIgnored st3 in
              Inr (st4\<lparr>exports := sortCompare (compareExport localeCompare) (exports st4)\<rparr>)))"

text \<open>\<open>rawExportToExport\<close>: what a caller is given of an export.\<close>

definition rawExportToExport ::
  "rawExport \<Rightarrow> string list option \<times> bool \<times> segment list \<times> string \<times> string" where
  "rawExportToExport raw =
     (exp_conditions raw, exp_exists raw, exp_jsonPath raw, exp_specifier raw, exp_url raw)"

section \<open>Counting and locating messages\<close>

text \<open>The messages of a rule that are anchored at a JSON path, and how many they are.\<close>

definition selectMessages :: "string \<Rightarrow> segment list \<Rightarrow> message list \<Rightarrow> message list" where
  "selectMessages ruleId jsonPath ms =
     filter (\<lambda>m. msg_ruleId m = ruleId \<and> msg_jsonPath m = jsonPath) ms"

definition countMessages :: "string \<Rightarrow> segment list \<Rightarrow> message list \<Rightarrow> nat" where
  "countMessages ruleId jsonPath ms = length (selectMessages ruleId jsonPath ms)"

text \<open>
  What holds of every message made while the node at path \<open>p\<close> is resolved: it is
  anchored at \<open>p\<close> or below, the two rules that are anchored at a key of a
  conditions object are anchored strictly below, and the rule is not the one of the
  packaging check.
\<close>

definition emittedUnder :: "segment list \<Rightarrow> message \<Rightarrow> bool" where
  "emittedUnder p m =
     (prefix p (msg_jsonPath m) \<and>
      (msg_ruleId m = ''exports-types-verbose'' \<or>
       msg_ruleId m = ''exports-conditions-mutually-exclusive'' \<longrightarrow> msg_jsonPath m \<noteq> p) \<and>
      msg_ruleId m \<noteq> ''npm-ignored'')"

text \<open>The messages of \<open>st'\<close> are those of \<open>st\<close> followed by messages that satisfy \<open>P\<close>.\<close>

definition messagesGrow :: "(message \<Rightarrow> bool) \<Rightarrow> state \<Rightarrow> state \<Rightarrow> bool" where
  "messagesGrow P st st' = (\<exists>ms. messages st' = messages st @ ms \<and> (\<forall>m\<in>set ms. P m))"

section \<open>Concrete inputs\<close>

text \<open>
  A world and a start state on which the development is evaluated.  The matcher of
  this world knows one pattern, \<open>./lib/**/*.js\<close>; the only file on disk that is
  probed successfully is \<open>./local.js\<close>.
\<close>

definition exampleWorld :: world where
  "exampleWorld =
     \<lparr>minimatch = (\<lambda>pattern file. pattern = ''./lib/**/*.js'' \<and>
                     startsWith file ''./lib/'' \<and> endsWith file ''.js''),
      resolveUrl = (\<lambda>value. ''file:///package/'' @ value),
      fsAccess = (\<lambda>url. url = ''file:///package/./local.js''),
      pathSep = CHR ''/''\<rparr>"

definition emptyState :: "string list \<Rightarrow> state" where
  "emptyState files = \<lparr>exports = [], negatedExports = [], packagedFiles = files, messages = []\<rparr>"

section \<open>The messages of the exclusivity checks\<close>

text \<open>
  The groups of the table that hold the condition and one of the active conditions,
  and the messages the checks of one condition add: one for each such group, naming
  the condition and the first active condition of the group.
\<close>

definition conflictingGroups :: "string list \<Rightarrow> string \<Rightarrow> mutuallyExclusiveInfo list" where
  "conflictingGroups active condition =
     filter (\<lambda>exclusive. condition \<in> set (mx_conditions exclusive) \<and>
                list_ex (\<lambda>other. other \<in> set (mx_conditions exclusive)) active)
       mutuallyExclusiveConditions"

definition exclusiveMessages :: "info \<Rightarrow> string \<Rightarrow> message list" where
  "exclusiveMessages info condition =
     (case conditions info of
        None \<Rightarrow> []
      | Some active \<Rightarrow>
          map (\<lambda>exclusive.
                 \<lparr>msg_ruleId = ''exports-conditions-mutually-exclusive'',
                  msg_jsonPath = path info @ [Key condition],
                  msg_reason =
                    [condition,
                     the (find (\<lambda>other. other \<in> set (mx_conditions exclusive)) active)]\<rparr>)
            (conflictingGroups active condition))"

text \<open>The extension of the declaration file that belongs to a JavaScript extension.\<close>

definition typesExtension :: "string \<Rightarrow> string" where
  "typesExtension extension =
     (if extension = ''.js'' then ''.d.ts''
      else if extension = ''.cjs'' then ''.d.cts''
      else ''.d.mts'')"

text \<open>
  A stand-in for \<open>localeCompare\<close> on concrete inputs (comparison by code units), the
  messages and exports of a result, and a package with a name, a type and files.
\<close>

fun codeUnitCompare :: "string \<Rightarrow> string \<Rightarrow> int" where
  "codeUnitCompare [] [] = 0"
| "codeUnitCompare [] (y # ys) = - 1"
| "codeUnitCompare (x # xs) [] = 1"
| "codeUnitCompare (x # xs) (y # ys) =
     (if (of_char x :: nat) < of_char y then - 1
      else if (of_char y :: nat) < of_char x then 1
      else codeUnitCompare xs ys)"

definition messagesOf :: "error + state \<Rightarrow> message list" where
  "messagesOf r = (case r of Inl e \<Rightarrow> [] | Inr st \<Rightarrow> messages st)"

definition exportsOf :: "error + state \<Rightarrow> rawExport list" where
  "exportsOf r = (case r of Inl e \<Rightarrow> [] | Inr st \<Rightarrow> exports st)"

definition examplePackage :: "json \<Rightarrow> packageJson" where
  "examplePackage exportsValue =
     \<lparr>pkg_name = Some (JStr ''x''), pkg_type = Some (JStr ''module''),
      pkg_files = Some (JArr []), pkg_exports = Some exportsValue, pkg_main = None\<rparr>"

text \<open>An export map in which \<open>node\<close> is nested in \<open>node-addons\<close> and \<open>browser\<close>.\<close>

definition nodeInTwoGroups :: json where
  "nodeInTwoGroups =
     JObj [(''node-addons'',
            JObj [(''browser'',
                   JObj [(''node'', JStr ''./a.js''), (''default'', JStr ''./b.js'')]),
                  (''default'', JStr ''./b.js'')]),
           (''default'', JStr ''./b.js'')]"

section \<open>Orders\<close>

text \<open>
  What the sort needs of a comparator: any two elements are ordered one way or the
  other, and the order is transitive.
\<close>

definition consistentComparator :: "('a \<Rightarrow> 'a \<Rightarrow> int) \<Rightarrow> bool" where
  "consistentComparator cmp =
     ((\<forall>a b. cmp a b \<le> 0 \<or> cmp b a \<le> 0) \<and>
      (\<forall>a b c. cmp a b \<le> 0 \<longrightarrow> cmp b c \<le> 0 \<longrightarrow> cmp a c \<le> 0))"

text \<open>
  The order of the exports as the specification words it: lexicographic over the
  orders, a sequence that is a strict prefix of another before it; on equal orders the
  count of path segments of the specifier, then the alphabet.
\<close>

fun specPathOrderLess :: "nat list \<Rightarrow> nat list \<Rightarrow> bool" where
  "specPathOrderLess [] [] = False"
| "specPathOrderLess [] (r # rs) = True"
| "specPathOrderLess (l # ls) [] = False"
| "specPathOrderLess (l # ls) (r # rs) = (l < r \<or> (l = r \<and> specPathOrderLess ls rs))"

definition specCompareLess :: "(string \<Rightarrow> string \<Rightarrow> int) \<Rightarrow> rawExport \<Rightarrow> rawExport \<Rightarrow> bool" where
  "specCompareLess localeCompare left right =
     (specPathOrderLess (exp_jsonPathOrder left) (exp_jsonPathOrder right) \<or>
      (exp_jsonPathOrder left = exp_jsonPathOrder right \<and>
       (length (split_str CHR ''/'' (exp_specifier left)) <
          length (split_str CHR ''/'' (exp_specifier right)) \<or>
        (length (split_str CHR ''/'' (exp_specifier left)) =
           length (split_str CHR ''/'' (exp_specifier right)) \<and>
         localeCompare (exp_specifier left) (exp_specifier right) < 0))))"

text \<open>A package without an export map, and an export map with a wildcard.\<close>

definition legacyPackage :: packageJson where
  "legacyPackage =
     \<lparr>pkg_name = Some (JStr ''x''), pkg_type = Some (JStr ''commonjs''),
      pkg_files = Some (JArr []), pkg_exports = None, pkg_main = Some (JStr ''./index.js'')\<rparr>"

definition wildcardExports :: json where
  "wildcardExports = JObj [(''./*'', JStr ''./lib/*.js'')]"

section \<open>The messages of the packaging check\<close>

text \<open>
  The message the packaging check makes for an export, the exports it makes one
  for, and the states without any such message.
\<close>

definition npmIgnoredMessage :: "rawExport \<Rightarrow> message" where
  "npmIgnoredMessage theExport =
     \<lparr>msg_ruleId = ''npm-ignored'', msg_jsonPath = exp_jsonPath theExport,
      msg_reason = [exp_filePath theExport]\<rparr>"

definition existsUnpacked :: "string list \<Rightarrow> rawExport \<Rightarrow> bool" where
  "existsUnpacked files theExport =
     (exp_exists theExport \<and> exp_filePath theExport \<notin> set files)"

definition noNpmIgnored :: "state \<Rightarrow> bool" where
  "noNpmIgnored st = list_all (\<lambda>m. msg_ruleId m \<noteq> ''npm-ignored'') (messages st)"

text \<open>
  An export map in which the condition \<open>node\<close> is nested in itself, next to a
  negation under \<open>node\<close> and \<open>browser\<close>.
\<close>

definition duplicateConditionNegation :: json where
  "duplicateConditionNegation =
     JObj [(''./a'', JObj [(''node'', JObj [(''node'', JStr ''./a.js''), (''browser'', JNull)])])]"

section \<open>Exports made from a wildcard\<close>

text \<open>The export that \<open>addDynamic\<close> adds for a replacement.\<close>

definition wildcardExport ::
  "world \<Rightarrow> info \<Rightarrow> string \<Rightarrow> string \<Rightarrow> string list \<Rightarrow> string \<Rightarrow> rawExport" where
  "wildcardExport w info before after valueParts replacement =
     \<lparr>exp_conditions = conditions info, exp_exists = True,
      exp_filePath = join_str replacement valueParts, exp_globbed = True,
      exp_jsonPath = path info, exp_jsonPathOrder = pathOrder info,
      exp_specifier = before @ replacement @ after,
      exp_url = resolveUrl w (join_str replacement valueParts)\<rparr>"

section \<open>The shape of a specifier\<close>

text \<open>
  The shape the specification gives to the specifier of every export: it is \<open>.\<close> or
  starts with \<open>./\<close>, and it has no wildcard.
\<close>

definition claimedSpecifier :: "string \<Rightarrow> bool" where
  "claimedSpecifier s = ((s = ''.'' \<or> startsWith s ''./'') \<and> CHR ''*'' \<notin> set s)"

text \<open>
  The shape the walk keeps: the specifier starts with a dot; if it has a wildcard,
  then either the export was made by a glob and the wildcard came with the file name,
  or it was written so, has one wildcard, and its file path has none.
\<close>

definition specifierShape :: "rawExport \<Rightarrow> bool" where
  "specifierShape theExport =
     (startsWith (exp_specifier theExport) ''.'' \<and>
      (CHR ''*'' \<in> set (exp_specifier theExport) \<longrightarrow>
         (if exp_globbed theExport
          then CHR ''*'' \<in> set (exp_filePath theExport)
          else CHR ''*'' \<notin> set (exp_filePath theExport) \<and>
               count_list (exp_specifier theExport) CHR ''*'' = 1)))"

text \<open>The exports of \<open>st'\<close> are those of \<open>st\<close> followed by exports that satisfy \<open>P\<close>.\<close>

definition exportsGrow :: "(rawExport \<Rightarrow> bool) \<Rightarrow> state \<Rightarrow> state \<Rightarrow> bool" where
  "exportsGrow P st st' = (\<exists>es. exports st' = exports st @ es \<and> list_all P es)"

text \<open>The specifier a leaf would use here starts with a dot.\<close>

definition specifierContext :: "info \<Rightarrow> bool" where
  "specifierContext info = startsWith (specifierOrDot info) ''.''"

section \<open>Every message of a subtree is anchored in the subtree\<close>

lemma messagesGrow_refl: "messagesGrow P st st"
  by (simp add: messagesGrow_def)

lemma messagesGrow_trans:
  "messagesGrow P a b \<Longrightarrow> messagesGrow P b c \<Longrightarrow> messagesGrow P a c"
  by (auto simp: messagesGrow_def)

lemma messagesGrow_mono:
  "messagesGrow P a b \<Longrightarrow> (\<And>m. P m \<Longrightarrow> Q m) \<Longrightarrow> messagesGrow Q a b"
  by (auto simp: messagesGrow_def)

lemma messagesGrow_message:
  "P \<lparr>msg_ruleId = r, msg_jsonPath = p, msg_reason = rs\<rparr> \<Longrightarrow> messagesGrow P st (message st rs r p)"
  by (simp add: messagesGrow_def message_def)

lemma messagesGrow_same: "messages b = messages a \<Longrightarrow> messagesGrow P a b"
  by (simp add: messagesGrow_def)

lemma emittedUnder_child:
  "emittedUnder (p @ [s]) m \<Longrightarrow> emittedUnder p m"
  by (auto simp: emittedUnder_def dest: append_prefixD prefix_length_le)

lemma emittedUnder_plain:
  "r \<noteq> ''exports-types-verbose'' \<Longrightarrow> r \<noteq> ''exports-conditions-mutually-exclusive'' \<Longrightarrow>
   r \<noteq> ''npm-ignored'' \<Longrightarrow>
   emittedUnder p \<lparr>msg_ruleId = r, msg_jsonPath = p, msg_reason = rs\<rparr>"
  by (simp add: emittedUnder_def)

lemma emittedUnder_key:
  "r \<noteq> ''npm-ignored'' \<Longrightarrow>
   emittedUnder p \<lparr>msg_ruleId = r, msg_jsonPath = p @ [s], msg_reason = rs\<rparr>"
  by (simp add: emittedUnder_def)

lemma addResolved_messages:
  "messagesGrow (\<lambda>m. msg_ruleId m = ''exports-path-not-found'' \<and> msg_jsonPath m = path info)
     st (addResolved w st info d e sp v)"
  by (auto simp: addResolved_def checkExists_def Let_def messagesGrow_def message_def split: option.splits)

lemma addResolved_emitted: "messagesGrow (emittedUnder (path info)) st (addResolved w st info d e sp v)"
  by (rule messagesGrow_mono [OF addResolved_messages]) (simp add: emittedUnder_def)

lemma foldl_addResolved_emitted:
  "messagesGrow (emittedUnder (path info)) st
     (foldl (\<lambda>s r. addResolved w s info d e (f r) (g r)) st rs)"
proof (induction rs arbitrary: st)
  case Nil
  show ?case by (simp add: messagesGrow_refl)
next
  case (Cons r rs)
  show ?case
    using messagesGrow_trans [OF addResolved_emitted Cons.IH] by simp
qed

lemma addDynamic_emitted:
  "addDynamic w st info sp parts = Inr st' \<Longrightarrow> messagesGrow (emittedUnder (path info)) st st'"
  unfolding addDynamic_def Let_def
  by (auto split: if_splits sum.splits intro!: messagesGrow_message emittedUnder_plain foldl_addResolved_emitted)

lemma addValue_emitted:
  "addValue w st info v = Inr st' \<Longrightarrow> messagesGrow (emittedUnder (path info)) st st'"
  unfolding addValue_def Let_def
  by (auto split: if_splits dest!: addDynamic_emitted
      intro!: messagesGrow_message emittedUnder_plain addResolved_emitted
      intro: messagesGrow_trans [OF messagesGrow_message addResolved_emitted])

lemma conditionsVerbose_emitted:
  "messagesGrow (emittedUnder (path info)) st (conditionsVerbose st info keys)"
  by (auto simp: conditionsVerbose_def messagesGrow_refl intro!: messagesGrow_message emittedUnder_plain)

lemma typesVerbose_emitted:
  "messagesGrow (emittedUnder (path info)) st (typesVerbose st info kvs)"
  by (auto simp: typesVerbose_def messagesGrow_refl Let_def split: option.splits json.splits
      intro!: messagesGrow_message emittedUnder_key)

lemma exclusiveCheck_emitted:
  "messagesGrow (emittedUnder (path info)) st (exclusiveCheck st info c x)"
  by (auto simp: exclusiveCheck_def messagesGrow_refl split: option.splits
      intro!: messagesGrow_message emittedUnder_key)

lemma exclusiveChecks_emitted:
  "messagesGrow (emittedUnder (path info)) st (exclusiveChecks st info c)"
proof -
  have "messagesGrow (emittedUnder (path info)) st
          (foldl (\<lambda>s exclusive. exclusiveCheck s info c exclusive) st xs)" for xs
  proof (induction xs arbitrary: st)
    case Nil
    show ?case by (simp add: messagesGrow_refl)
  next
    case (Cons x xs)
    show ?case using messagesGrow_trans [OF exclusiveCheck_emitted Cons.IH] by simp
  qed
  then show ?thesis by (simp add: exclusiveChecks_def)
qed

lemma conditionsFinish_emitted:
  "conditionsFinish st info keys = Inr st' \<Longrightarrow> messagesGrow (emittedUnder (path info)) st st'"
  by (auto simp: conditionsFinish_def messagesGrow_refl split: if_splits
      intro!: messagesGrow_message emittedUnder_key emittedUnder_plain)

lemma extensionCheck_emitted:
  "messagesGrow (emittedUnder (path info)) st (extensionCheck st info keys sp)"
  by (auto simp: extensionCheck_def messagesGrow_refl Let_def
      intro!: messagesGrow_message emittedUnder_plain)

lemmas walk_induct =
  resolveExports_resolveExportsList_resolveExportsObject_resolveExportsConditions_conditionsLoop_resolveExportsSpecifiers_specifiersLoop.induct

lemma walk_emitted:
  "(\<forall>st'. resolveExports w st info v = Inr st' \<longrightarrow> messagesGrow (emittedUnder (path info)) st st')"
  "(\<forall>st'. resolveExportsList w st info xs = Inr st' \<longrightarrow> messagesGrow (emittedUnder (path info)) st st')"
  "(\<forall>st'. resolveExportsObject w st info kvs = Inr st' \<longrightarrow> messagesGrow (emittedUnder (path info)) st st')"
  "(\<forall>st'. resolveExportsConditions w st info kvs = Inr st' \<longrightarrow> messagesGrow (emittedUnder (path info)) st st')"
  "(\<forall>st'. conditionsLoop w st info kvs i = Inr st' \<longrightarrow> messagesGrow (emittedUnder (path info)) st st')"
  "(\<forall>st'. resolveExportsSpecifiers w st info kvs = Inr st' \<longrightarrow> messagesGrow (emittedUnder (path info)) st st')"
  "(\<forall>st'. specifiersLoop w st info keys kvs i = Inr st' \<longrightarrow> messagesGrow (emittedUnder (path info)) st st')"
proof (induction w st info v and w st info xs and w st info kvs and w st info kvs
    and w st info kvs i and w st info kvs and w st info keys kvs i rule: walk_induct)
  case (1 w st info exportsValue)
  then show ?case by simp
next
  case (2 w st info exportsValue)
  then show ?case by simp
next
  case (3 w st info)
  then show ?case by (auto dest: addValue_emitted)
next
  case (4 w st info v)
  then show ?case by (auto dest: addValue_emitted)
next
  case (5 w st info v)
  then show ?case by (auto dest: addValue_emitted)
next
  case (6 w st info v)
  then show ?case by (auto dest: addValue_emitted)
next
  case (7 w st info)
  then show ?case by (auto intro!: messagesGrow_message emittedUnder_plain)
next
  case (8 w st info first others)
  show ?case
  proof (intro allI impI)
    fix st'
    assume r: "resolveExportsList w st info (first # others) = Inr st'"
    then have "messagesGrow (emittedUnder (path info @ [Idx 0]))
                 (message st [] ''exports-alternatives'' (path info)) st'"
      using 8 by simp
    then have "messagesGrow (emittedUnder (path info))
                 (message st [] ''exports-alternatives'' (path info)) st'"
      by (rule messagesGrow_mono) (rule emittedUnder_child)
    moreover have "messagesGrow (emittedUnder (path info)) st
                 (message st [] ''exports-alternatives'' (path info))"
      by (rule messagesGrow_message) (simp add: emittedUnder_plain)
    ultimately show "messagesGrow (emittedUnder (path info)) st st'"
      by (rule messagesGrow_trans [rotated])
  qed
next
  case (9 w st info exportsValue)
  show ?case
  proof (intro allI impI)
    fix st'
    assume r: "resolveExportsObject w st info exportsValue = Inr st'"
    then show "messagesGrow (emittedUnder (path info)) st st'"
      using 9
      by (auto simp: Let_def split: if_splits intro!: messagesGrow_message emittedUnder_plain)
  qed
next
  case (10 w st info exportsValue)
  show ?case
  proof (intro allI impI)
    fix st'
    assume r: "resolveExportsConditions w st info exportsValue = Inr st'"
    then obtain st1 where
      l: "conditionsLoop w (typesVerbose (conditionsVerbose st info (map fst exportsValue)) info exportsValue)
            info exportsValue 0 = Inr st1"
      and f: "conditionsFinish st1 info (map fst exportsValue) = Inr st'"
      by (auto simp: Let_def split: sum.splits)
    from 10 l have "messagesGrow (emittedUnder (path info))
        (typesVerbose (conditionsVerbose st info (map fst exportsValue)) info exportsValue) st1"
      by simp
    with conditionsVerbose_emitted typesVerbose_emitted conditionsFinish_emitted [OF f]
    show "messagesGrow (emittedUnder (path info)) st st'"
      by (blast intro: messagesGrow_trans)
  qed
next
  case (11 w st info index)
  then show ?case by (simp add: messagesGrow_refl)
next
  case (12 w st info condition "value" rest index)
  let ?child = "info\<lparr>conditions := Some ((case conditions info of None \<Rightarrow> [] | Some active \<Rightarrow> active) @ [condition]),
                     path := path info @ [Key condition], pathOrder := pathOrder info @ [index]\<rparr>"
  show ?case
  proof (intro allI impI)
    fix st'
    assume r: "conditionsLoop w st info ((condition, value) # rest) index = Inr st'"
    then obtain st1 where
      c: "resolveExports w (exclusiveChecks st info condition) ?child value = Inr st1"
      and l: "conditionsLoop w st1 info rest (Suc index) = Inr st'"
      by (auto split: sum.splits)
    from 12(1) c have "messagesGrow (emittedUnder (path info @ [Key condition]))
        (exclusiveChecks st info condition) st1" by simp
    then have "messagesGrow (emittedUnder (path info)) (exclusiveChecks st info condition) st1"
      by (rule messagesGrow_mono) (rule emittedUnder_child)
    moreover from 12(2) [OF c] l have "messagesGrow (emittedUnder (path info)) st1 st'" by simp
    ultimately show "messagesGrow (emittedUnder (path info)) st st'"
      using exclusiveChecks_emitted by (blast intro: messagesGrow_trans)
  qed
next
  case (13 w st info exportsValue)
  show ?case
  proof (intro allI impI)
    fix st'
    assume r: "resolveExportsSpecifiers w st info exportsValue = Inr st'"
    have "messagesGrow (emittedUnder (path info)) st
       (if length (map fst exportsValue) = 1 \<and> hd (map fst exportsValue) = ''.''
        then message st [] ''exports-specifiers-verbose'' (path info) else st)"
      by (auto simp: messagesGrow_refl intro!: messagesGrow_message emittedUnder_plain)
    moreover from r 13 have "messagesGrow (emittedUnder (path info))
       (if length (map fst exportsValue) = 1 \<and> hd (map fst exportsValue) = ''.''
        then message st [] ''exports-specifiers-verbose'' (path info) else st) st'"
      by (simp add: Let_def)
    ultimately show "messagesGrow (emittedUnder (path info)) st st'"
      by (rule messagesGrow_trans)
  qed
next
  case (14 w st info keys index)
  then show ?case by (simp add: messagesGrow_refl)
next
  case (15 w st info keys spec "value" rest index)
  let ?child = "info\<lparr>path := path info @ [Key spec], pathOrder := pathOrder info @ [index],
                     specifier := Some spec\<rparr>"
  show ?case
  proof (intro allI impI)
    fix st'
    assume r: "specifiersLoop w st info keys ((spec, value) # rest) index = Inr st'"
    then obtain st1 where
      c: "resolveExports w (extensionCheck st info keys spec) ?child value = Inr st1"
      and l: "specifiersLoop w st1 info keys rest (Suc index) = Inr st'"
      by (auto split: sum.splits)
    from 15(1) c have "messagesGrow (emittedUnder (path info @ [Key spec]))
        (extensionCheck st info keys spec) st1" by simp
    then have "messagesGrow (emittedUnder (path info)) (extensionCheck st info keys spec) st1"
      by (rule messagesGrow_mono) (rule emittedUnder_child)
    moreover from 15(2) [OF c] l have "messagesGrow (emittedUnder (path info)) st1 st'" by simp
    ultimately show "messagesGrow (emittedUnder (path info)) st st'"
      using extensionCheck_emitted by (blast intro: messagesGrow_trans)
  qed
qed


lemma selectMessages_append:
  "selectMessages r p (xs @ ys) = selectMessages r p xs @ selectMessages r p ys"
  by (simp add: selectMessages_def)

lemma selectMessages_message:
  "selectMessages r p (messages (message st rs r' p')) =
     selectMessages r p (messages st) @
     (if r' = r \<and> p' = p then [\<lparr>msg_ruleId = r', msg_jsonPath = p', msg_reason = rs\<rparr>] else [])"
  by (simp add: selectMessages_def message_def)

lemma selectMessages_none:
  "\<forall>m\<in>set ms. \<not> (msg_ruleId m = r \<and> msg_jsonPath m = p) \<Longrightarrow> selectMessages r p ms = []"
  by (simp add: selectMessages_def)

lemma messagesGrow_select:
  assumes "messagesGrow P st st'" and "\<And>m. P m \<Longrightarrow> \<not> (msg_ruleId m = r \<and> msg_jsonPath m = p)"
  shows "selectMessages r p (messages st') = selectMessages r p (messages st)"
proof -
  from assms(1) obtain ms where ms: "messages st' = messages st @ ms" "\<forall>m\<in>set ms. P m"
    by (auto simp: messagesGrow_def)
  from ms(2) assms(2) have "selectMessages r p ms = []"
    by (intro selectMessages_none) blast
  with ms(1) show ?thesis by (simp add: selectMessages_append)
qed

lemma countMessages_message:
  "countMessages r p (messages (message st rs r' p')) =
     countMessages r p (messages st) + (if r' = r \<and> p' = p then 1 else 0)"
  by (simp add: countMessages_def selectMessages_message)

lemma emittedUnder_child_not_here: "emittedUnder (p @ [s]) m \<Longrightarrow> msg_jsonPath m \<noteq> p"
  by (auto simp: emittedUnder_def)

lemma child_select:
  "messagesGrow (emittedUnder (p @ [s])) st st' \<Longrightarrow>
   selectMessages r p (messages st') = selectMessages r p (messages st)"
  by (erule messagesGrow_select) (simp add: emittedUnder_child_not_here)

lemma child_count:
  "messagesGrow (emittedUnder (p @ [s])) st st' \<Longrightarrow>
   countMessages r p (messages st') = countMessages r p (messages st)"
  by (simp add: countMessages_def child_select)

lemma extensionCheck_dot: "extensionCheck st info keys ''.'' = st"
  by (simp add: extensionCheck_def)

section \<open>C10: a specifiers object with the sole key \<open>.\<close>\<close>

text \<open>
  C10.  \<open>resolveExportsSpecifiers\<close> on an object whose only key is \<open>.\<close> makes one
  \<open>exports-specifiers-verbose\<close> message at the path of the object and then resolves the
  value at \<open>.\<close> exactly as it resolves any specifier: with the path and the order
  extended and the specifier set to \<open>.\<close>.  When the call returns, the number of such
  messages at the path of the object has grown by one.
\<close>

theorem C10_sole_dot_specifier:
  "resolveExportsSpecifiers w st info [(''.'', v)] =
     resolveExports w (message st [] ''exports-specifiers-verbose'' (path info))
       (info\<lparr>path := path info @ [Key ''.''], pathOrder := pathOrder info @ [0],
             specifier := Some ''.''\<rparr>) v
   \<and> (\<forall>st'. resolveExportsSpecifiers w st info [(''.'', v)] = Inr st' \<longrightarrow>
         countMessages ''exports-specifiers-verbose'' (path info) (messages st') =
         countMessages ''exports-specifiers-verbose'' (path info) (messages st) + 1)"
proof -
  let ?child = "info\<lparr>path := path info @ [Key ''.''], pathOrder := pathOrder info @ [0],
                     specifier := Some ''.''\<rparr>"
  let ?st1 = "message st [] ''exports-specifiers-verbose'' (path info)"
  have eq: "resolveExportsSpecifiers w st info [(''.'', v)] = resolveExports w ?st1 ?child v"
    by (simp add: extensionCheck_dot split: sum.splits)
  have "countMessages ''exports-specifiers-verbose'' (path info) (messages st') =
        countMessages ''exports-specifiers-verbose'' (path info) (messages st) + 1"
    if "resolveExports w ?st1 ?child v = Inr st'" for st'
  proof -
    from walk_emitted(1) that have "messagesGrow (emittedUnder (path ?child)) ?st1 st'"
      by blast
    then have "messagesGrow (emittedUnder (path info @ [Key ''.''])) ?st1 st'" by simp
    from child_count [OF this] show ?thesis by (simp add: countMessages_message)
  qed
  with eq show ?thesis by simp
qed

theorem C10_sole_dot_specifier_witness:
  "resolveExportsSpecifiers exampleWorld (emptyState [''./index.js''])
     (rootInfo [Key ''exports''] [0] None) [(''.'', JStr ''./index.js'')] =
   Inr \<lparr>exports =
          [\<lparr>exp_conditions = None, exp_exists = True, exp_filePath = ''./index.js'',
            exp_globbed = False, exp_jsonPath = [Key ''exports'', Key ''.''],
            exp_jsonPathOrder = [0, 0], exp_specifier = ''.'',
            exp_url = ''file:///package/./index.js''\<rparr>],
         negatedExports = [], packagedFiles = [''./index.js''],
         messages = [\<lparr>msg_ruleId = ''exports-specifiers-verbose'',
                      msg_jsonPath = [Key ''exports''], msg_reason = []\<rparr>]\<rparr>
   \<and> countMessages ''exports-specifiers-verbose'' [Key ''exports'']
        [\<lparr>msg_ruleId = ''exports-specifiers-verbose'',
          msg_jsonPath = [Key ''exports''], msg_reason = []\<rparr>] = 0 + 1"
proof -
  have run: "resolveExportsSpecifiers exampleWorld (emptyState [''./index.js''])
     (rootInfo [Key ''exports''] [0] None) [(''.'', JStr ''./index.js'')] =
   Inr \<lparr>exports =
          [\<lparr>exp_conditions = None, exp_exists = True, exp_filePath = ''./index.js'',
            exp_globbed = False, exp_jsonPath = [Key ''exports'', Key ''.''],
            exp_jsonPathOrder = [0, 0], exp_specifier = ''.'',
            exp_url = ''file:///package/./index.js''\<rparr>],
         negatedExports = [], packagedFiles = [''./index.js''],
         messages = [\<lparr>msg_ruleId = ''exports-specifiers-verbose'',
                      msg_jsonPath = [Key ''exports''], msg_reason = []\<rparr>]\<rparr>"
    by code_simp
  from C10_sole_dot_specifier [of exampleWorld "emptyState [''./index.js'']"
      "rootInfo [Key ''exports''] [0] None" "JStr ''./index.js''"] run
  show ?thesis
    by (simp add: emptyState_def rootInfo_def countMessages_def selectMessages_def)
qed


section \<open>C8: arrays of alternatives\<close>

text \<open>
  C8.  An empty array changes the state only by one \<open>exports-alternatives-empty\<close>
  message at its path: no export and no negated export is added.  An array with a first
  item makes one \<open>exports-alternatives\<close> message at its path and goes on with the first
  item alone, at index \<open>0\<close>: the result is the same whatever the other items are, and
  when the call returns the number of \<open>exports-alternatives\<close> messages at the path of
  the array has grown by one.
\<close>

theorem C8_alternatives:
  "resolveExports w st info (JArr []) =
     Inr (st\<lparr>messages := messages st @
               [\<lparr>msg_ruleId = ''exports-alternatives-empty'', msg_jsonPath = path info,
                 msg_reason = []\<rparr>]\<rparr>)
   \<and> resolveExports w st info (JArr (first # others)) =
       resolveExports w (message st [] ''exports-alternatives'' (path info))
         (info\<lparr>path := path info @ [Idx 0], pathOrder := pathOrder info @ [0]\<rparr>) first
   \<and> resolveExports w st info (JArr (first # others)) = resolveExports w st info (JArr [first])
   \<and> (\<forall>st'. resolveExports w st info (JArr (first # others)) = Inr st' \<longrightarrow>
         countMessages ''exports-alternatives'' (path info) (messages st') =
         countMessages ''exports-alternatives'' (path info) (messages st) + 1)"
proof -
  let ?child = "info\<lparr>path := path info @ [Idx 0], pathOrder := pathOrder info @ [0]\<rparr>"
  let ?st1 = "message st [] ''exports-alternatives'' (path info)"
  have "countMessages ''exports-alternatives'' (path info) (messages st') =
        countMessages ''exports-alternatives'' (path info) (messages st) + 1"
    if "resolveExports w ?st1 ?child first = Inr st'" for st'
  proof -
    from walk_emitted(1) that have "messagesGrow (emittedUnder (path ?child)) ?st1 st'"
      by blast
    then have "messagesGrow (emittedUnder (path info @ [Idx 0])) ?st1 st'" by simp
    from child_count [OF this] show ?thesis by (simp add: countMessages_message)
  qed
  then show ?thesis by (simp add: message_def)
qed

theorem C8_alternatives_witness:
  "resolveExports exampleWorld (emptyState [''./other.js''])
     (rootInfo [Key ''exports'', Key ''./other''] [0, 1] (Some ''./other''))
     (JArr [JStr ''./other.js'', JStr ''./ignored.js'']) =
   Inr \<lparr>exports =
          [\<lparr>exp_conditions = None, exp_exists = True, exp_filePath = ''./other.js'',
            exp_globbed = False, exp_jsonPath = [Key ''exports'', Key ''./other'', Idx 0],
            exp_jsonPathOrder = [0, 1, 0], exp_specifier = ''./other'',
            exp_url = ''file:///package/./other.js''\<rparr>],
         negatedExports = [], packagedFiles = [''./other.js''],
         messages = [\<lparr>msg_ruleId = ''exports-alternatives'',
                      msg_jsonPath = [Key ''exports'', Key ''./other''], msg_reason = []\<rparr>]\<rparr>
   \<and> countMessages ''exports-alternatives'' [Key ''exports'', Key ''./other'']
        [\<lparr>msg_ruleId = ''exports-alternatives'',
          msg_jsonPath = [Key ''exports'', Key ''./other''], msg_reason = []\<rparr>] = 0 + 1"
proof -
  have run: "resolveExports exampleWorld (emptyState [''./other.js''])
     (rootInfo [Key ''exports'', Key ''./other''] [0, 1] (Some ''./other''))
     (JArr [JStr ''./other.js'', JStr ''./ignored.js'']) =
   Inr \<lparr>exports =
          [\<lparr>exp_conditions = None, exp_exists = True, exp_filePath = ''./other.js'',
            exp_globbed = False, exp_jsonPath = [Key ''exports'', Key ''./other'', Idx 0],
            exp_jsonPathOrder = [0, 1, 0], exp_specifier = ''./other'',
            exp_url = ''file:///package/./other.js''\<rparr>],
         negatedExports = [], packagedFiles = [''./other.js''],
         messages = [\<lparr>msg_ruleId = ''exports-alternatives'',
                      msg_jsonPath = [Key ''exports'', Key ''./other''], msg_reason = []\<rparr>]\<rparr>"
    by code_simp
  from C8_alternatives [of exampleWorld "emptyState [''./other.js'']"
      "rootInfo [Key ''exports'', Key ''./other''] [0, 1] (Some ''./other'')"
      "JStr ''./other.js''" "[JStr ''./ignored.js'']"] run
  show ?thesis
    by (simp add: emptyState_def rootInfo_def countMessages_def selectMessages_def)
qed

section \<open>Messages of a conditions object\<close>

lemma find_None_list_ex: "(find P xs = None) = (\<not> list_ex P xs)"
  by (induction xs) auto

lemma exclusiveChecks_messages:
  "exclusiveChecks st info c = st\<lparr>messages := messages st @ exclusiveMessages info c\<rparr>"
proof -
  have "foldl (\<lambda>s exclusive. exclusiveCheck s info c exclusive) st xs =
        st\<lparr>messages := messages st @
          (case conditions info of
             None \<Rightarrow> []
           | Some active \<Rightarrow>
               map (\<lambda>exclusive.
                      \<lparr>msg_ruleId = ''exports-conditions-mutually-exclusive'',
                       msg_jsonPath = path info @ [Key c],
                       msg_reason =
                         [c, the (find (\<lambda>other. other \<in> set (mx_conditions exclusive)) active)]\<rparr>)
                 (filter (\<lambda>exclusive. c \<in> set (mx_conditions exclusive) \<and>
                            list_ex (\<lambda>other. other \<in> set (mx_conditions exclusive)) active) xs))\<rparr>"
    for xs
  proof (induction xs arbitrary: st)
    case Nil
    show ?case by (simp split: option.splits)
  next
    case (Cons x xs)
    show ?case
      by (simp add: Cons.IH) (auto simp: exclusiveCheck_def message_def find_None_list_ex [symmetric]
          split: option.splits)
  qed
  then show ?thesis
    by (simp add: exclusiveChecks_def exclusiveMessages_def conflictingGroups_def
        split: option.splits)
qed

lemma conditionsLoop_select:
  assumes "conditionsLoop w st info kvs i = Inr st'"
    and "\<And>k m. emittedUnder (path info @ [Key k]) m \<Longrightarrow> \<not> (msg_ruleId m = r \<and> msg_jsonPath m = q)"
  shows "selectMessages r q (messages st') =
         selectMessages r q (messages st) @
         concat (map (\<lambda>kv. selectMessages r q (exclusiveMessages info (fst kv))) kvs)"
  using assms(1)
proof (induction kvs arbitrary: st i)
  case Nil
  then show ?case by simp
next
  case (Cons kv kvs)
  obtain k v where kv: "kv = (k, v)" by (cases kv)
  let ?child = "info\<lparr>conditions := Some ((case conditions info of None \<Rightarrow> [] | Some active \<Rightarrow> active) @ [k]),
                     path := path info @ [Key k], pathOrder := pathOrder info @ [i]\<rparr>"
  from Cons.prems kv obtain st1 where
    c: "resolveExports w (exclusiveChecks st info k) ?child v = Inr st1"
    and l: "conditionsLoop w st1 info kvs (Suc i) = Inr st'"
    by (auto split: sum.splits)
  from walk_emitted(1) c have "messagesGrow (emittedUnder (path ?child)) (exclusiveChecks st info k) st1"
    by blast
  then have "messagesGrow (emittedUnder (path info @ [Key k])) (exclusiveChecks st info k) st1"
    by simp
  then have "selectMessages r q (messages st1) = selectMessages r q (messages (exclusiveChecks st info k))"
    by (rule messagesGrow_select) (rule assms(2))
  with Cons.IH [OF l] kv show ?case
    by (simp add: exclusiveChecks_messages selectMessages_append)
qed

lemma exclusiveMessages_rule:
  "m \<in> set (exclusiveMessages info k) \<Longrightarrow>
   msg_ruleId m = ''exports-conditions-mutually-exclusive'' \<and> msg_jsonPath m = path info @ [Key k]"
  by (auto simp: exclusiveMessages_def split: option.splits)

lemma selectMessages_exclusive_other_rule:
  "r \<noteq> ''exports-conditions-mutually-exclusive'' \<Longrightarrow>
   selectMessages r q (exclusiveMessages info k) = []"
  by (rule selectMessages_none) (auto dest: exclusiveMessages_rule)

lemma selectMessages_exclusive_other_key:
  "k \<noteq> k' \<Longrightarrow> selectMessages r (path info @ [Key k']) (exclusiveMessages info k) = []"
  by (rule selectMessages_none) (auto dest: exclusiveMessages_rule)

lemma selectMessages_exclusive_same:
  "selectMessages ''exports-conditions-mutually-exclusive'' (path info @ [Key k])
     (exclusiveMessages info k) = exclusiveMessages info k"
  unfolding selectMessages_def by (rule filter_True) (auto dest: exclusiveMessages_rule)

lemma concat_map_Nil: "(\<And>x. x \<in> set xs \<Longrightarrow> f x = []) \<Longrightarrow> concat (map f xs) = []"
  by (induction xs) auto

text \<open>Messages at the path of the conditions object itself: none from the loop.\<close>

lemma conditionsLoop_select_here:
  assumes "conditionsLoop w st info kvs i = Inr st'"
  shows "selectMessages r (path info) (messages st') = selectMessages r (path info) (messages st)"
proof -
  have "selectMessages r (path info) (exclusiveMessages info k) = []" for k
    by (rule selectMessages_none) (auto dest: exclusiveMessages_rule)
  then have "concat (map (\<lambda>kv. selectMessages r (path info) (exclusiveMessages info (fst kv))) kvs) = []"
    by (intro concat_map_Nil) simp
  with conditionsLoop_select [OF assms, of r "path info"] show ?thesis
    by (simp add: emittedUnder_child_not_here)
qed

lemma emittedUnder_key_other:
  "emittedUnder (p @ [Key k]) m \<Longrightarrow>
   (msg_ruleId m = ''exports-types-verbose'' \<or>
    msg_ruleId m = ''exports-conditions-mutually-exclusive'') \<Longrightarrow>
   msg_jsonPath m \<noteq> p @ [Key k']"
  by (auto simp: emittedUnder_def)

section \<open>C6: a conditions object without \<open>default\<close>\<close>

lemma exhaustiveKeys_iff:
  "exhaustiveKeys keys = (''import'' \<in> set keys \<and> ''require'' \<in> set keys)"
  by (simp add: exhaustiveKeys_def mutuallyExclusiveConditions_def)

lemma conditionsVerbose_no_default:
  "''default'' \<notin> set keys \<Longrightarrow> conditionsVerbose st info keys = st"
  by (cases keys) (auto simp: conditionsVerbose_def)

lemma typesVerbose_no_default:
  "''default'' \<notin> set (map fst kvs) \<Longrightarrow> typesVerbose st info kvs = st"
  by (simp add: typesVerbose_def)

text \<open>
  The only abort of the analysis of a conditions object itself is the assertion on
  the last key, which fails for an object without keys or with the empty string as last
  key.
\<close>

lemma conditionsFinish_aborts:
  "(conditionsFinish st info keys = Inl e) = (keys = [] \<or> last keys = [])"
  by (cases e) (simp add: conditionsFinish_def)

text \<open>
  C6.  Let a conditions object have no key \<open>default\<close> and let its resolution return.
  If some group of the table is marked exhaustive and has all its conditions among the
  keys, no \<open>exports-conditions-default-missing\<close> message is added at the path of the
  object; otherwise exactly one is added.  The groups marked exhaustive are the one
  group of \<open>import\<close> and \<open>require\<close>: the test holds exactly when both are keys.
\<close>

theorem C6_default_missing:
  assumes "resolveExportsConditions w st info exportsValue = Inr st'"
    and "''default'' \<notin> set (map fst exportsValue)"
  shows "countMessages ''exports-conditions-default-missing'' (path info) (messages st') =
         countMessages ''exports-conditions-default-missing'' (path info) (messages st) +
         (if exhaustiveKeys (map fst exportsValue) then 0 else 1)
       \<and> exhaustiveKeys (map fst exportsValue) =
           (''import'' \<in> set (map fst exportsValue) \<and> ''require'' \<in> set (map fst exportsValue))"
proof -
  let ?keys = "map fst exportsValue"
  let ?r = "''exports-conditions-default-missing''"
  from assms obtain st1 where
    l: "conditionsLoop w st info exportsValue 0 = Inr st1"
    and f: "conditionsFinish st1 info ?keys = Inr st'"
    by (auto simp: Let_def conditionsVerbose_no_default typesVerbose_no_default split: sum.splits)
  from conditionsLoop_select_here [OF l]
  have "countMessages ?r (path info) (messages st1) = countMessages ?r (path info) (messages st)"
    by (simp add: countMessages_def)
  moreover from f assms(2)
  have "countMessages ?r (path info) (messages st') =
        countMessages ?r (path info) (messages st1) + (if exhaustiveKeys ?keys then 0 else 1)"
    by (auto simp: conditionsFinish_def countMessages_message split: if_splits)
  ultimately show ?thesis
    using exhaustiveKeys_iff [of ?keys] by simp
qed

theorem C6_default_missing_witness:
  "resolveExportsConditions exampleWorld (emptyState [''./index.js'', ''./index.cjs''])
     (rootInfo [Key ''exports''] [0] None)
     [(''import'', JStr ''./index.js''), (''require'', JStr ''./index.cjs'')] =
   Inr \<lparr>exports =
          [\<lparr>exp_conditions = Some [''import''], exp_exists = True,
            exp_filePath = ''./index.js'', exp_globbed = False,
            exp_jsonPath = [Key ''exports'', Key ''import''], exp_jsonPathOrder = [0, 0],
            exp_specifier = ''.'', exp_url = ''file:///package/./index.js''\<rparr>,
           \<lparr>exp_conditions = Some [''require''], exp_exists = True,
            exp_filePath = ''./index.cjs'', exp_globbed = False,
            exp_jsonPath = [Key ''exports'', Key ''require''], exp_jsonPathOrder = [0, 1],
            exp_specifier = ''.'', exp_url = ''file:///package/./index.cjs''\<rparr>],
         negatedExports = [], packagedFiles = [''./index.js'', ''./index.cjs''],
         messages = []\<rparr>
   \<and> resolveExportsConditions exampleWorld (emptyState [''./index.js'', ''./index.cjs''])
     (rootInfo [Key ''exports''] [0] None) [(''import'', JStr ''./index.js'')] =
   Inr \<lparr>exports =
          [\<lparr>exp_conditions = Some [''import''], exp_exists = True,
            exp_filePath = ''./index.js'', exp_globbed = False,
            exp_jsonPath = [Key ''exports'', Key ''import''], exp_jsonPathOrder = [0, 0],
            exp_specifier = ''.'', exp_url = ''file:///package/./index.js''\<rparr>],
         negatedExports = [], packagedFiles = [''./index.js'', ''./index.cjs''],
         messages = [\<lparr>msg_ruleId = ''exports-conditions-default-missing'',
                      msg_jsonPath = [Key ''exports''], msg_reason = [''.'']\<rparr>]\<rparr>
   \<and> countMessages ''exports-conditions-default-missing'' [Key ''exports''] [] = 0 + 0
   \<and> countMessages ''exports-conditions-default-missing'' [Key ''exports'']
         [\<lparr>msg_ruleId = ''exports-conditions-default-missing'',
           msg_jsonPath = [Key ''exports''], msg_reason = [''.'']\<rparr>] = 0 + 1"
proof -
  let ?st = "emptyState [''./index.js'', ''./index.cjs'']"
  let ?info = "rootInfo [Key ''exports''] [0] None"
  let ?both = "[(''import'', JStr ''./index.js''), (''require'', JStr ''./index.cjs'')]"
  let ?one = "[(''import'', JStr ''./index.js'')]"
  let ?st2 = "\<lparr>exports =
          [\<lparr>exp_conditions = Some [''import''], exp_exists = True,
            exp_filePath = ''./index.js'', exp_globbed = False,
            exp_jsonPath = [Key ''exports'', Key ''import''], exp_jsonPathOrder = [0, 0],
            exp_specifier = ''.'', exp_url = ''file:///package/./index.js''\<rparr>,
           \<lparr>exp_conditions = Some [''require''], exp_exists = True,
            exp_filePath = ''./index.cjs'', exp_globbed = False,
            exp_jsonPath = [Key ''exports'', Key ''require''], exp_jsonPathOrder = [0, 1],
            exp_specifier = ''.'', exp_url = ''file:///package/./index.cjs''\<rparr>],
         negatedExports = [], packagedFiles = [''./index.js'', ''./index.cjs''],
         messages = []\<rparr>"
  let ?st1 = "\<lparr>exports =
          [\<lparr>exp_conditions = Some [''import''], exp_exists = True,
            exp_filePath = ''./index.js'', exp_globbed = False,
            exp_jsonPath = [Key ''exports'', Key ''import''], exp_jsonPathOrder = [0, 0],
            exp_specifier = ''.'', exp_url = ''file:///package/./index.js''\<rparr>],
         negatedExports = [], packagedFiles = [''./index.js'', ''./index.cjs''],
         messages = [\<lparr>msg_ruleId = ''exports-conditions-default-missing'',
                      msg_jsonPath = [Key ''exports''], msg_reason = [''.'']\<rparr>]\<rparr>"
  have both: "resolveExportsConditions exampleWorld ?st ?info ?both = Inr ?st2"
    by code_simp
  have one: "resolveExportsConditions exampleWorld ?st ?info ?one = Inr ?st1"
    by code_simp
  have d: "''default'' \<notin> set (map fst ?both)" "''default'' \<notin> set (map fst ?one)"
    by simp_all
  have e2: "exhaustiveKeys (map fst ?both)"
    using conjunct2 [OF C6_default_missing [OF both d(1)]] by simp
  have e1: "\<not> exhaustiveKeys (map fst ?one)"
    using conjunct2 [OF C6_default_missing [OF one d(2)]] by simp
  have c2: "countMessages ''exports-conditions-default-missing'' [Key ''exports''] [] = 0 + 0"
    using conjunct1 [OF C6_default_missing [OF both d(1)]]
    unfolding if_P [OF e2]
    by (simp add: emptyState_def rootInfo_def countMessages_def selectMessages_def)
  have c1: "countMessages ''exports-conditions-default-missing'' [Key ''exports'']
         [\<lparr>msg_ruleId = ''exports-conditions-default-missing'',
           msg_jsonPath = [Key ''exports''], msg_reason = [''.'']\<rparr>] = 0 + 1"
    using conjunct1 [OF C6_default_missing [OF one d(2)]]
    unfolding if_not_P [OF e1]
    by (simp add: emptyState_def rootInfo_def countMessages_def selectMessages_def)
  from both one c1 c2 show ?thesis by (intro conjI)
qed

section \<open>C9: a verbose \<open>types\<close> condition\<close>

lemma split_str_ne: "split_str c s \<noteq> []"
  by (induction s) (auto split: list.splits)

lemma split_str_none: "c \<notin> set s \<Longrightarrow> split_str c s = [s]"
  by (induction s) auto

lemma split_str_append:
  "c \<notin> set e \<Longrightarrow> split_str c (stem @ c # e) = split_str c stem @ [e]"
proof (induction stem)
  case Nil
  then show ?case by (simp add: split_str_none)
next
  case (Cons x stem)
  then show ?case
    using split_str_ne [of c stem] by (cases "split_str c stem") auto
qed

lemma join_split_str: "join_str [c] (split_str c s) = s"
proof (induction s)
  case Nil
  show ?case by simp
next
  case (Cons x s)
  show ?case
  proof (cases "split_str c s")
    case Nil
    with split_str_ne show ?thesis by blast
  next
    case (Cons y ys)
    with Cons.IH show ?thesis by (cases ys) auto
  qed
qed

lemma join_str_append:
  "xs \<noteq> [] \<Longrightarrow> ys \<noteq> [] \<Longrightarrow>
   join_str sep (xs @ ys) = join_str sep xs @ sep @ join_str sep ys"
proof (induction sep xs rule: join_str.induct)
  case (1 sep)
  then show ?case by simp
next
  case (2 sep x)
  then show ?case by (cases ys) auto
next
  case (3 sep x y ys')
  then show ?case by simp
qed

lemma expectedTypes_known:
  assumes "extension = ''.js'' \<or> extension = ''.cjs'' \<or> extension = ''.mjs''"
  shows "expectedTypes (stem @ extension) = Some (stem @ typesExtension extension)"
proof -
  have e: "expectedTypes (stem @ CHR ''.'' # x) =
           Some (stem @ ''.d.'' @ replaceFirst CHR ''j'' CHR ''t'' x)"
    if "x = ''js'' \<or> x = ''cjs'' \<or> x = ''mjs''" for x
  proof -
    from that have nd: "CHR ''.'' \<notin> set x" by auto
    have "join_str ''.'' (split_str CHR ''.'' stem @ [''d'', replaceFirst CHR ''j'' CHR ''t'' x]) =
          stem @ ''.'' @ join_str ''.'' [''d'', replaceFirst CHR ''j'' CHR ''t'' x]"
      using join_str_append [of "split_str CHR ''.'' stem" "[''d'', replaceFirst CHR ''j'' CHR ''t'' x]" "''.''"]
      by (simp add: split_str_ne join_split_str)
    with that show ?thesis
      by (simp add: expectedTypes_def split_str_append [OF nd] Let_def)
  qed
  from assms show ?thesis
  proof (elim disjE)
    assume "extension = ''.js''"
    with e [of "''js''"] show ?thesis by (simp add: typesExtension_def)
  next
    assume "extension = ''.cjs''"
    with e [of "''cjs''"] show ?thesis by (simp add: typesExtension_def)
  next
    assume "extension = ''.mjs''"
    with e [of "''mjs''"] show ?thesis by (simp add: typesExtension_def)
  qed
qed

text \<open>
  C9.  Let a conditions object have the string \<open>stem @ extension\<close> at \<open>default\<close>,
  with \<open>extension\<close> one of \<open>.js\<close>, \<open>.cjs\<close>, \<open>.mjs\<close>, and a string at \<open>types\<close>, and
  let its resolution return.  Then one \<open>exports-types-verbose\<close> message is added at
  the \<open>types\<close> key of the object if the value at \<open>types\<close> is \<open>stem\<close> followed by
  \<open>.d.ts\<close>, \<open>.d.cts\<close>, \<open>.d.mts\<close> respectively, and none is added otherwise.
\<close>

theorem C9_types_verbose:
  assumes run: "resolveExportsConditions w st info exportsValue = Inr st'"
    and d: "map_of exportsValue ''default'' = Some (JStr (stem @ extension))"
    and t: "map_of exportsValue ''types'' = Some (JStr types)"
    and x: "extension = ''.js'' \<or> extension = ''.cjs'' \<or> extension = ''.mjs''"
  shows "countMessages ''exports-types-verbose'' (path info @ [Key ''types'']) (messages st') =
         countMessages ''exports-types-verbose'' (path info @ [Key ''types'']) (messages st) +
         (if types = stem @ typesExtension extension then 1 else 0)"
proof -
  let ?keys = "map fst exportsValue"
  let ?r = "''exports-types-verbose''"
  let ?q = "path info @ [Key ''types'']"
  let ?st0 = "typesVerbose (conditionsVerbose st info ?keys) info exportsValue"
  from run obtain st1 where
    l: "conditionsLoop w ?st0 info exportsValue 0 = Inr st1"
    and f: "conditionsFinish st1 info ?keys = Inr st'"
    by (auto simp: Let_def split: sum.splits)
  from d t have keys: "''default'' \<in> set ?keys" "''types'' \<in> set ?keys"
    by (auto dest!: map_of_SomeD intro: rev_image_eqI)
  have v: "selectMessages ?r ?q (messages (conditionsVerbose st info ?keys)) =
           selectMessages ?r ?q (messages st)"
    by (simp add: conditionsVerbose_def selectMessages_message)
  have p: "selectMessages ?r ?q (messages ?st0) =
           selectMessages ?r ?q (messages st) @
           (if types = stem @ typesExtension extension
            then [\<lparr>msg_ruleId = ?r, msg_jsonPath = ?q, msg_reason = []\<rparr>] else [])"
    using keys d t v
    by (auto simp: typesVerbose_def expectedTypes_known [OF x] selectMessages_message)
  have "concat (map (\<lambda>kv. selectMessages ?r ?q (exclusiveMessages info (fst kv))) exportsValue) = []"
    by (intro concat_map_Nil) (simp add: selectMessages_exclusive_other_rule)
  with conditionsLoop_select [OF l, of ?r ?q]
  have s1: "selectMessages ?r ?q (messages st1) = selectMessages ?r ?q (messages ?st0)"
    by (simp add: emittedUnder_key_other)
  from f have "selectMessages ?r ?q (messages st') = selectMessages ?r ?q (messages st1)"
    by (auto simp: conditionsFinish_def selectMessages_message split: if_splits)
  with s1 p show ?thesis by (simp add: countMessages_def)
qed


theorem C9_types_verbose_witness:
  "resolveExportsConditions exampleWorld (emptyState [''./index.d.ts'', ''./index.js''])
     (rootInfo [Key ''exports''] [0] None)
     [(''types'', JStr ''./index.d.ts''), (''default'', JStr ''./index.js'')] =
   Inr \<lparr>exports =
          [\<lparr>exp_conditions = Some [''types''], exp_exists = True,
            exp_filePath = ''./index.d.ts'', exp_globbed = False,
            exp_jsonPath = [Key ''exports'', Key ''types''], exp_jsonPathOrder = [0, 0],
            exp_specifier = ''.'', exp_url = ''file:///package/./index.d.ts''\<rparr>,
           \<lparr>exp_conditions = Some [''default''], exp_exists = True,
            exp_filePath = ''./index.js'', exp_globbed = False,
            exp_jsonPath = [Key ''exports'', Key ''default''], exp_jsonPathOrder = [0, 1],
            exp_specifier = ''.'', exp_url = ''file:///package/./index.js''\<rparr>],
         negatedExports = [], packagedFiles = [''./index.d.ts'', ''./index.js''],
         messages = [\<lparr>msg_ruleId = ''exports-types-verbose'',
                      msg_jsonPath = [Key ''exports'', Key ''types''], msg_reason = []\<rparr>]\<rparr>
   \<and> countMessages ''exports-types-verbose'' [Key ''exports'', Key ''types'']
         [\<lparr>msg_ruleId = ''exports-types-verbose'',
           msg_jsonPath = [Key ''exports'', Key ''types''], msg_reason = []\<rparr>] = 0 + 1"
proof -
  let ?st = "emptyState [''./index.d.ts'', ''./index.js'']"
  let ?info = "rootInfo [Key ''exports''] [0] None"
  let ?kvs = "[(''types'', JStr ''./index.d.ts''), (''default'', JStr ''./index.js'')]"
  let ?st1 = "\<lparr>exports =
          [\<lparr>exp_conditions = Some [''types''], exp_exists = True,
            exp_filePath = ''./index.d.ts'', exp_globbed = False,
            exp_jsonPath = [Key ''exports'', Key ''types''], exp_jsonPathOrder = [0, 0],
            exp_specifier = ''.'', exp_url = ''file:///package/./index.d.ts''\<rparr>,
           \<lparr>exp_conditions = Some [''default''], exp_exists = True,
            exp_filePath = ''./index.js'', exp_globbed = False,
            exp_jsonPath = [Key ''exports'', Key ''default''], exp_jsonPathOrder = [0, 1],
            exp_specifier = ''.'', exp_url = ''file:///package/./index.js''\<rparr>],
         negatedExports = [], packagedFiles = [''./index.d.ts'', ''./index.js''],
         messages = [\<lparr>msg_ruleId = ''exports-types-verbose'',
                      msg_jsonPath = [Key ''exports'', Key ''types''], msg_reason = []\<rparr>]\<rparr>"
  have run: "resolveExportsConditions exampleWorld ?st ?info ?kvs = Inr ?st1"
    by code_simp
  have d: "map_of ?kvs ''default'' = Some (JStr (''./index'' @ ''.js''))"
    and t: "map_of ?kvs ''types'' = Some (JStr ''./index.d.ts'')"
    and x: "''.js'' = ''.js'' \<or> ''.js'' = ''.cjs'' \<or> ''.js'' = ''.mjs''"
    by simp_all
  have c: "countMessages ''exports-types-verbose'' [Key ''exports'', Key ''types'']
         [\<lparr>msg_ruleId = ''exports-types-verbose'',
           msg_jsonPath = [Key ''exports'', Key ''types''], msg_reason = []\<rparr>] = 0 + 1"
    using C9_types_verbose [OF run d t x]
    by (simp add: emptyState_def rootInfo_def typesExtension_def
        countMessages_def selectMessages_def)
  from run c show ?thesis by (intro conjI)
qed

section \<open>C5: mutually exclusive conditions\<close>

lemma concat_map_single:
  "distinct (map fst kvs) \<Longrightarrow> c \<in> set (map fst kvs) \<Longrightarrow>
   (\<And>k. k \<noteq> c \<Longrightarrow> f k = []) \<Longrightarrow>
   concat (map (\<lambda>kv. f (fst kv)) kvs) = f c"
proof (induction kvs)
  case Nil
  then show ?case by simp
next
  case (Cons kv kvs)
  show ?case
  proof (cases "fst kv = c")
    case True
    have "f (fst x) = []" if "x \<in> set kvs" for x
    proof -
      from that True Cons.prems(1) have "fst x \<noteq> c" by (auto simp: image_iff)
      then show ?thesis by (rule Cons.prems(3))
    qed
    then have "concat (map (\<lambda>kv. f (fst kv)) kvs) = []"
      by (intro concat_map_Nil) simp
    with True show ?thesis by simp
  next
    case False
    with Cons show ?thesis by auto
  qed
qed

lemma conflictingGroups_bound:
  "length (conflictingGroups active condition) \<le> (if condition = ''node'' then 2 else 1)"
proof -
  have "length (conflictingGroups active condition) \<le>
        length (filter (\<lambda>exclusive. condition \<in> set (mx_conditions exclusive))
                  mutuallyExclusiveConditions)"
  proof -
    have "length (filter (\<lambda>x. P x \<and> Q x) gs) \<le> length (filter P gs)"
      for P Q :: "mutuallyExclusiveInfo \<Rightarrow> bool" and gs
      by (induction gs) auto
    then show ?thesis by (simp add: conflictingGroups_def)
  qed
  also have "\<dots> \<le> (if condition = ''node'' then 2 else 1)"
    by (auto simp: mutuallyExclusiveConditions_def)
  finally show ?thesis .
qed

text \<open>
  C5, as stated, fails.  The \<open>break\<close> after the message leaves the loop over the active
  conditions only, so the checks go on with the next group: the key \<open>node\<close> belongs
  to two groups, and under the active conditions \<open>node-addons\<close> and \<open>browser\<close> it
  gets two messages, one for each group.
\<close>

theorem C5_mutually_exclusive_counterexample:
  "\<not> isl (packageExports exampleWorld codeUnitCompare (examplePackage nodeInTwoGroups)
            [''a.js'', ''b.js''])
   \<and> selectMessages ''exports-conditions-mutually-exclusive''
       [Key ''exports'', Key ''node-addons'', Key ''browser'', Key ''node'']
       (messagesOf (packageExports exampleWorld codeUnitCompare (examplePackage nodeInTwoGroups)
                      [''a.js'', ''b.js''])) =
     [\<lparr>msg_ruleId = ''exports-conditions-mutually-exclusive'',
       msg_jsonPath = [Key ''exports'', Key ''node-addons'', Key ''browser'', Key ''node''],
       msg_reason = [''node'', ''node-addons'']\<rparr>,
      \<lparr>msg_ruleId = ''exports-conditions-mutually-exclusive'',
       msg_jsonPath = [Key ''exports'', Key ''node-addons'', Key ''browser'', Key ''node''],
       msg_reason = [''node'', ''browser'']\<rparr>]
   \<and> countMessages ''exports-conditions-mutually-exclusive''
       [Key ''exports'', Key ''node-addons'', Key ''browser'', Key ''node'']
       (messagesOf (packageExports exampleWorld codeUnitCompare (examplePackage nodeInTwoGroups)
                      [''a.js'', ''b.js''])) = 2"
  by code_simp

text \<open>
  C5, amended.  Let the resolution of a conditions object with pairwise distinct keys
  return.  For each key, the \<open>exports-conditions-mutually-exclusive\<close> messages added at
  the key are one for each group of the table that holds the key and some active
  condition, in the order of the table, each naming the key and the first active
  condition of its group: one message for each conflicting group, never one for each
  conflicting pair.  A key other than \<open>node\<close> gets at most one, \<open>node\<close> at most two.
\<close>

theorem C5_mutually_exclusive:
  assumes run: "resolveExportsConditions w st info exportsValue = Inr st'"
    and dist: "distinct (map fst exportsValue)"
    and key: "condition \<in> set (map fst exportsValue)"
  shows "selectMessages ''exports-conditions-mutually-exclusive'' (path info @ [Key condition])
           (messages st') =
         selectMessages ''exports-conditions-mutually-exclusive'' (path info @ [Key condition])
           (messages st) @ exclusiveMessages info condition
       \<and> length (exclusiveMessages info condition) =
           (case conditions info of
              None \<Rightarrow> 0
            | Some active \<Rightarrow> length (conflictingGroups active condition))
       \<and> length (exclusiveMessages info condition) \<le> (if condition = ''node'' then 2 else 1)"
proof -
  let ?keys = "map fst exportsValue"
  let ?r = "''exports-conditions-mutually-exclusive''"
  let ?q = "path info @ [Key condition]"
  let ?st0 = "typesVerbose (conditionsVerbose st info ?keys) info exportsValue"
  from run obtain st1 where
    l: "conditionsLoop w ?st0 info exportsValue 0 = Inr st1"
    and f: "conditionsFinish st1 info ?keys = Inr st'"
    by (auto simp: Let_def split: sum.splits)
  have p: "selectMessages ?r ?q (messages ?st0) = selectMessages ?r ?q (messages st)"
    by (auto simp: typesVerbose_def conditionsVerbose_def selectMessages_message Let_def
        split: option.splits json.splits)
  have "concat (map (\<lambda>kv. selectMessages ?r ?q (exclusiveMessages info (fst kv))) exportsValue) =
        selectMessages ?r ?q (exclusiveMessages info condition)"
    by (rule concat_map_single [OF dist key]) (simp add: selectMessages_exclusive_other_key)
  with conditionsLoop_select [OF l, of ?r ?q]
  have s1: "selectMessages ?r ?q (messages st1) =
            selectMessages ?r ?q (messages ?st0) @ exclusiveMessages info condition"
    by (simp add: emittedUnder_key_other selectMessages_exclusive_same)
  from f have "selectMessages ?r ?q (messages st') = selectMessages ?r ?q (messages st1)"
    by (auto simp: conditionsFinish_def selectMessages_message split: if_splits)
  with s1 p have a: "selectMessages ?r ?q (messages st') =
      selectMessages ?r ?q (messages st) @ exclusiveMessages info condition"
    by simp
  have b: "length (exclusiveMessages info condition) =
           (case conditions info of
              None \<Rightarrow> 0
            | Some active \<Rightarrow> length (conflictingGroups active condition))"
    by (simp add: exclusiveMessages_def split: option.splits)
  have "length (exclusiveMessages info condition) \<le> (if condition = ''node'' then 2 else 1)"
  proof (cases "conditions info")
    case None
    with b show ?thesis by simp
  next
    case (Some active)
    with b conflictingGroups_bound [of active condition] show ?thesis by simp
  qed
  with a b show ?thesis by (intro conjI)
qed


theorem C5_mutually_exclusive_witness:
  "resolveExportsConditions exampleWorld (emptyState [''./a.js'', ''./b.js''])
     \<lparr>conditions = Some [''node-addons'', ''browser''],
      path = [Key ''exports'', Key ''node-addons'', Key ''browser''],
      pathOrder = [0, 0, 0], specifier = None\<rparr>
     [(''node'', JStr ''./a.js''), (''default'', JStr ''./b.js'')] =
   Inr \<lparr>exports =
          [\<lparr>exp_conditions = Some [''node-addons'', ''browser'', ''node''], exp_exists = True,
            exp_filePath = ''./a.js'', exp_globbed = False,
            exp_jsonPath = [Key ''exports'', Key ''node-addons'', Key ''browser'', Key ''node''],
            exp_jsonPathOrder = [0, 0, 0, 0], exp_specifier = ''.'',
            exp_url = ''file:///package/./a.js''\<rparr>,
           \<lparr>exp_conditions = Some [''node-addons'', ''browser'', ''default''],
            exp_exists = True, exp_filePath = ''./b.js'', exp_globbed = False,
            exp_jsonPath =
              [Key ''exports'', Key ''node-addons'', Key ''browser'', Key ''default''],
            exp_jsonPathOrder = [0, 0, 0, 1], exp_specifier = ''.'',
            exp_url = ''file:///package/./b.js''\<rparr>],
         negatedExports = [], packagedFiles = [''./a.js'', ''./b.js''],
         messages =
           [\<lparr>msg_ruleId = ''exports-conditions-mutually-exclusive'',
             msg_jsonPath = [Key ''exports'', Key ''node-addons'', Key ''browser'', Key ''node''],
             msg_reason = [''node'', ''node-addons'']\<rparr>,
            \<lparr>msg_ruleId = ''exports-conditions-mutually-exclusive'',
             msg_jsonPath = [Key ''exports'', Key ''node-addons'', Key ''browser'', Key ''node''],
             msg_reason = [''node'', ''browser'']\<rparr>]\<rparr>
   \<and> exclusiveMessages
        \<lparr>conditions = Some [''node-addons'', ''browser''],
         path = [Key ''exports'', Key ''node-addons'', Key ''browser''],
         pathOrder = [0, 0, 0], specifier = None\<rparr> ''default'' = []
   \<and> length (exclusiveMessages
        \<lparr>conditions = Some [''node-addons'', ''browser''],
         path = [Key ''exports'', Key ''node-addons'', Key ''browser''],
         pathOrder = [0, 0, 0], specifier = None\<rparr> ''node'') = 2"
proof -
  let ?st = "emptyState [''./a.js'', ''./b.js'']"
  let ?info = "\<lparr>conditions = Some [''node-addons'', ''browser''],
      path = [Key ''exports'', Key ''node-addons'', Key ''browser''],
      pathOrder = [0, 0, 0], specifier = None\<rparr>"
  let ?kvs = "[(''node'', JStr ''./a.js''), (''default'', JStr ''./b.js'')]"
  let ?ms = "[\<lparr>msg_ruleId = ''exports-conditions-mutually-exclusive'',
             msg_jsonPath = [Key ''exports'', Key ''node-addons'', Key ''browser'', Key ''node''],
             msg_reason = [''node'', ''node-addons'']\<rparr>,
            \<lparr>msg_ruleId = ''exports-conditions-mutually-exclusive'',
             msg_jsonPath = [Key ''exports'', Key ''node-addons'', Key ''browser'', Key ''node''],
             msg_reason = [''node'', ''browser'']\<rparr>]"
  let ?st1 = "\<lparr>exports =
          [\<lparr>exp_conditions = Some [''node-addons'', ''browser'', ''node''], exp_exists = True,
            exp_filePath = ''./a.js'', exp_globbed = False,
            exp_jsonPath = [Key ''exports'', Key ''node-addons'', Key ''browser'', Key ''node''],
            exp_jsonPathOrder = [0, 0, 0, 0], exp_specifier = ''.'',
            exp_url = ''file:///package/./a.js''\<rparr>,
           \<lparr>exp_conditions = Some [''node-addons'', ''browser'', ''default''],
            exp_exists = True, exp_filePath = ''./b.js'', exp_globbed = False,
            exp_jsonPath =
              [Key ''exports'', Key ''node-addons'', Key ''browser'', Key ''default''],
            exp_jsonPathOrder = [0, 0, 0, 1], exp_specifier = ''.'',
            exp_url = ''file:///package/./b.js''\<rparr>],
         negatedExports = [], packagedFiles = [''./a.js'', ''./b.js''],
         messages = ?ms\<rparr>"
  have run: "resolveExportsConditions exampleWorld ?st ?info ?kvs = Inr ?st1"
    by code_simp
  have dist: "distinct (map fst ?kvs)"
    and k1: "''node'' \<in> set (map fst ?kvs)" and k2: "''default'' \<in> set (map fst ?kvs)"
    by simp_all
  have a: "exclusiveMessages ?info ''default'' = []"
    using C5_mutually_exclusive [OF run dist k2]
    by (simp add: emptyState_def selectMessages_def)
  have "exclusiveMessages ?info ''node'' = ?ms"
    using conjunct1 [OF C5_mutually_exclusive [OF run dist k1]]
    by (simp add: emptyState_def selectMessages_def)
  then have b: "length (exclusiveMessages ?info ''node'') = 2"
    by simp
  from run a b show ?thesis by (intro conjI)
qed

section \<open>C7: the order of the exports\<close>

text \<open>
  The comparison of two orders reads a missing position as \<open>0\<close>: it does not change
  when zeros are appended to either side, and on sequences of the same length it is the
  lexicographic order.  So a sequence and its extension by zeros compare equal.
\<close>

lemma comparePathOrder_antisym: "comparePathOrder ys xs = - comparePathOrder xs ys"
  by (induction xs ys rule: comparePathOrder.induct) auto

lemma comparePathOrder_zero:
  "comparePathOrder xs ys = 0 \<Longrightarrow> comparePathOrder xs zs = comparePathOrder ys zs"
proof (induction xs ys arbitrary: zs rule: comparePathOrder.induct)
  case 1
  then show ?case by simp
next
  case (2 l ls)
  then have l: "l = 0" and r: "comparePathOrder ls [] = 0"
    by (auto split: if_splits)
  show ?case
  proof (cases zs)
    case Nil
    with l r show ?thesis by simp
  next
    case (Cons t ts)
    from 2(1) [of ts] l r have "comparePathOrder ls ts = comparePathOrder [] ts" by simp
    with Cons l show ?thesis by simp
  qed
next
  case (3 r rs)
  then have l: "r = 0" and r: "comparePathOrder [] rs = 0"
    by (auto split: if_splits)
  show ?case
  proof (cases zs)
    case Nil
    with l r show ?thesis using comparePathOrder_antisym [of "[]" rs] by simp
  next
    case (Cons t ts)
    from 3(1) [of ts] l r have "comparePathOrder [] ts = comparePathOrder rs ts" by simp
    with Cons l show ?thesis by simp
  qed
next
  case (4 l ls r rs)
  then have l: "l = r" and r: "comparePathOrder ls rs = 0"
    by (auto split: if_splits)
  show ?case
  proof (cases zs)
    case Nil
    from 4(1) [of "[]"] l r have "comparePathOrder ls [] = comparePathOrder rs []" by simp
    with Nil l show ?thesis by simp
  next
    case (Cons t ts)
    from 4(1) [of ts] l r have "comparePathOrder ls ts = comparePathOrder rs ts" by simp
    with Cons l show ?thesis by simp
  qed
qed


lemma comparePathOrder_trans:
  "comparePathOrder xs ys < 0 \<Longrightarrow> comparePathOrder ys zs < 0 \<Longrightarrow> comparePathOrder xs zs < 0"
proof (induction xs ys arbitrary: zs rule: comparePathOrder.induct)
  case 1
  then show ?case by simp
next
  case (2 l ls)
  from 2(2) have l: "l = 0" and a: "comparePathOrder ls [] < 0"
    by (simp_all split: if_splits)
  show ?case
  proof (cases zs)
    case Nil
    with 2(3) show ?thesis by simp
  next
    case (Cons t ts)
    show ?thesis
    proof (cases "t = 0")
      case True
      with 2(3) Cons have "comparePathOrder [] ts < 0" by simp
      with 2(1) [of ts] l a have "comparePathOrder ls ts < 0" by simp
      with Cons True l show ?thesis by simp
    next
      case False
      with Cons l show ?thesis by simp
    qed
  qed
next
  case (3 r rs)
  show ?case
  proof (cases zs)
    case Nil
    with 3(3) have r: "r = 0" and b: "comparePathOrder rs [] < 0"
      by (simp_all split: if_splits)
    from 3(2) r have "comparePathOrder [] rs < 0" by simp
    with 3(1) [of "[]"] r b show ?thesis by simp
  next
    case (Cons t ts)
    show ?thesis
    proof (cases "t = 0")
      case True
      with 3(3) Cons have r: "r = 0" and b: "comparePathOrder rs ts < 0"
        by (simp_all split: if_splits)
      from 3(2) r have "comparePathOrder [] rs < 0" by simp
      with 3(1) [of ts] r b have "comparePathOrder [] ts < 0" by simp
      with Cons True show ?thesis by simp
    next
      case False
      with Cons show ?thesis by simp
    qed
  qed
next
  case (4 l ls r rs)
  show ?case
  proof (cases zs)
    case Nil
    with 4(3) have r: "r = 0" and b: "comparePathOrder rs [] < 0"
      by (simp_all split: if_splits)
    from 4(2) r have l: "l = 0" and a: "comparePathOrder ls rs < 0"
      by (simp_all split: if_splits)
    from 4(1) [of "[]"] l r a b have "comparePathOrder ls [] < 0" by simp
    with Nil l show ?thesis by simp
  next
    case (Cons t ts)
    from 4(2) consider "l < r" | "l = r" "comparePathOrder ls rs < 0"
      by (auto split: if_splits)
    then show ?thesis
    proof cases
      case 1
      from 4(3) Cons have "r \<le> t" by (simp split: if_splits)
      with 1 Cons show ?thesis by simp
    next
      case 2
      from 4(3) Cons consider "r < t" | "r = t" "comparePathOrder rs ts < 0"
        by (auto split: if_splits)
      then show ?thesis
      proof cases
        case 1
        with 2 Cons show ?thesis by simp
      next
        case b: 2
        from 4(1) [of ts] 2 b have "comparePathOrder ls ts < 0" by simp
        with 2 b Cons show ?thesis by simp
      qed
    qed
  qed
qed

lemma comparePathOrder_pad_left:
  "comparePathOrder (xs @ replicate k 0) ys = comparePathOrder xs ys"
proof (induction k)
  case 0
  show ?case by simp
next
  case (Suc k)
  have "comparePathOrder (as @ [0]) bs = comparePathOrder as bs" for as bs
    by (induction as bs rule: comparePathOrder.induct) simp_all
  from this [of "xs @ replicate k 0" ys] Suc show ?case
    by (simp add: replicate_append_same)
qed

lemma comparePathOrder_pad_right:
  "comparePathOrder xs (ys @ replicate k 0) = comparePathOrder xs ys"
  using comparePathOrder_pad_left [of ys k xs] comparePathOrder_antisym [of xs "ys @ replicate k 0"]
    comparePathOrder_antisym [of xs ys] by simp

lemma comparePathOrder_same_length:
  "length xs = length ys \<Longrightarrow> (comparePathOrder xs ys < 0) = specPathOrderLess xs ys"
  by (induction xs ys rule: list_induct2) auto


lemma codeUnitCompare_total: "codeUnitCompare a b \<le> 0 \<or> codeUnitCompare b a \<le> 0"
  by (induction a b rule: codeUnitCompare.induct) simp_all

lemma codeUnitCompare_trans:
  "codeUnitCompare a b \<le> 0 \<Longrightarrow> codeUnitCompare b c \<le> 0 \<Longrightarrow> codeUnitCompare a c \<le> 0"
proof (induction a b arbitrary: c rule: codeUnitCompare.induct)
  case 1
  then show ?case by simp
next
  case (2 y ys)
  then show ?case by (cases c) simp_all
next
  case (3 x xs)
  then show ?case by simp
next
  case (4 x xs y ys)
  show ?case
  proof (cases c)
    case Nil
    with 4(3) show ?thesis by simp
  next
    case (Cons z zs)
    from 4(2) consider "(of_char x :: nat) < of_char y"
      | "(of_char x :: nat) = of_char y" "codeUnitCompare xs ys \<le> 0"
      by (auto split: if_splits)
    then show ?thesis
    proof cases
      case 1
      from 4(3) Cons have "(of_char y :: nat) \<le> of_char z" by (simp split: if_splits)
      with 1 Cons show ?thesis by simp
    next
      case 2
      from 4(3) Cons consider "(of_char y :: nat) < of_char z"
        | "(of_char y :: nat) = of_char z" "codeUnitCompare ys zs \<le> 0"
        by (auto split: if_splits)
      then show ?thesis
      proof cases
        case 1
        with 2 Cons show ?thesis by simp
      next
        case b: 2
        from 4(1) [of zs] 2 b have "codeUnitCompare xs zs \<le> 0" by simp
        with 2 b Cons show ?thesis by simp
      qed
    qed
  qed
qed

lemma codeUnitCompare_consistent: "consistentComparator codeUnitCompare"
  unfolding consistentComparator_def
  using codeUnitCompare_total codeUnitCompare_trans by blast

lemma compareExport_total:
  assumes "consistentComparator lc"
  shows "compareExport lc a b \<le> 0 \<or> compareExport lc b a \<le> 0"
proof -
  from assms have t: "lc x y \<le> 0 \<or> lc y x \<le> 0" for x y
    by (simp add: consistentComparator_def)
  let ?P = "comparePathOrder (exp_jsonPathOrder a) (exp_jsonPathOrder b)"
  let ?n = "int (length (split_str CHR ''/'' (exp_specifier a))) -
            int (length (split_str CHR ''/'' (exp_specifier b)))"
  have ba: "compareExport lc b a =
      (if ?P \<noteq> 0 then - ?P else if ?n \<noteq> 0 then - ?n
       else lc (exp_specifier b) (exp_specifier a))"
    using comparePathOrder_antisym [of "exp_jsonPathOrder a" "exp_jsonPathOrder b"]
    by (simp add: compareExport_def Let_def)
  have ab: "compareExport lc a b =
      (if ?P \<noteq> 0 then ?P else if ?n \<noteq> 0 then ?n
       else lc (exp_specifier a) (exp_specifier b))"
    by (simp add: compareExport_def Let_def)
  show ?thesis
  proof (cases "?P = 0")
    case False
    then show ?thesis unfolding ab ba by simp linarith
  next
    case True
    show ?thesis
    proof (cases "?n = 0")
      case False
      with True show ?thesis unfolding ab ba by simp linarith
    next
      case n: True
      with True t [of "exp_specifier a" "exp_specifier b"] show ?thesis
        unfolding ab ba by simp
    qed
  qed
qed

lemma compareExport_trans:
  assumes lc: "consistentComparator lc"
    and ab: "compareExport lc a b \<le> 0" and bc: "compareExport lc b c \<le> 0"
  shows "compareExport lc a c \<le> 0"
proof -
  let ?P = "\<lambda>x y. comparePathOrder (exp_jsonPathOrder x) (exp_jsonPathOrder y)"
  let ?n = "\<lambda>x. int (length (split_str CHR ''/'' (exp_specifier x)))"
  let ?L = "\<lambda>x y. lc (exp_specifier x) (exp_specifier y)"
  have ce: "compareExport lc x y =
      (if ?P x y \<noteq> 0 then ?P x y else if ?n x - ?n y \<noteq> 0 then ?n x - ?n y else ?L x y)" for x y
    by (simp add: compareExport_def Let_def)
  from ab have pab: "?P a b \<le> 0" by (simp add: ce split: if_splits)
  from bc have pbc: "?P b c \<le> 0" by (simp add: ce split: if_splits)
  consider "?P a b < 0" "?P b c < 0" | "?P a b < 0" "?P b c = 0" | "?P a b = 0" "?P b c < 0"
    | "?P a b = 0" "?P b c = 0"
    using pab pbc by linarith
  then show ?thesis
  proof cases
    case 1
    then have "?P a c < 0" by (rule comparePathOrder_trans)
    then show ?thesis by (simp add: ce)
  next
    case 2
    from comparePathOrder_zero [OF 2(2), of "exp_jsonPathOrder a"]
    have "?P b a = ?P c a" .
    with comparePathOrder_antisym [of "exp_jsonPathOrder a" "exp_jsonPathOrder b"]
      comparePathOrder_antisym [of "exp_jsonPathOrder a" "exp_jsonPathOrder c"]
    have "?P a c = ?P a b" by simp
    with 2 show ?thesis by (simp add: ce)
  next
    case 3
    from comparePathOrder_zero [OF 3(1), of "exp_jsonPathOrder c"] 3
    have "?P a c < 0" by simp
    then show ?thesis by (simp add: ce)
  next
    case 4
    from comparePathOrder_zero [OF 4(1), of "exp_jsonPathOrder c"] 4
    have pac: "?P a c = 0" by simp
    from ab 4 have nab: "?n a - ?n b \<le> 0" by (simp add: ce split: if_splits)
    from bc 4 have nbc: "?n b - ?n c \<le> 0" by (simp add: ce split: if_splits)
    show ?thesis
    proof (cases "?n a - ?n c = 0")
      case False
      with nab nbc pac show ?thesis by (simp add: ce)
    next
      case True
      with nab nbc have e: "?n a - ?n b = 0" "?n b - ?n c = 0" by linarith+
      with ab bc 4 have "?L a b \<le> 0" "?L b c \<le> 0" by (simp_all add: ce)
      with lc have "?L a c \<le> 0" unfolding consistentComparator_def by blast
      with True pac show ?thesis by (simp add: ce)
    qed
  qed
qed

lemma set_insertCompare: "set (insertCompare cmp x ys) = insert x (set ys)"
  by (induction ys) auto

lemma sorted_insertCompare:
  assumes total: "\<And>a b. cmp a b \<le> 0 \<or> cmp b a \<le> 0"
    and trans: "\<And>a b c. cmp a b \<le> 0 \<Longrightarrow> cmp b c \<le> 0 \<Longrightarrow> cmp a c \<le> 0"
  shows "sorted_wrt (\<lambda>a b. cmp a b \<le> 0) ys \<Longrightarrow>
         sorted_wrt (\<lambda>a b. cmp a b \<le> 0) (insertCompare cmp x ys)"
proof (induction ys)
  case Nil
  show ?case by simp
next
  case (Cons y ys)
  show ?case
  proof (cases "cmp x y \<le> 0")
    case True
    with Cons.prems trans have "\<forall>z\<in>set (y # ys). cmp x z \<le> 0" by auto
    with True Cons.prems show ?thesis by simp
  next
    case False
    with total [of x y] have "cmp y x \<le> 0" by simp
    with False Cons show ?thesis by (simp add: set_insertCompare)
  qed
qed

lemma sorted_sortCompare:
  assumes "\<And>a b. cmp a b \<le> 0 \<or> cmp b a \<le> 0"
    and "\<And>a b c. cmp a b \<le> 0 \<Longrightarrow> cmp b c \<le> 0 \<Longrightarrow> cmp a c \<le> 0"
  shows "sorted_wrt (\<lambda>a b. cmp a b \<le> 0) (sortCompare cmp xs)"
proof (induction xs)
  case Nil
  show ?case by (simp add: sortCompare_def)
next
  case (Cons x xs)
  from sorted_insertCompare [of cmp "sortCompare cmp xs" x, OF assms Cons]
  show ?case by (simp add: sortCompare_def)
qed

lemma sortCompare_sorted:
  "sorted_wrt (\<lambda>a b. cmp a b \<le> 0) xs \<Longrightarrow> sortCompare cmp xs = xs"
proof (induction xs)
  case Nil
  show ?case by (simp add: sortCompare_def)
next
  case (Cons x xs)
  then have "sortCompare cmp xs = xs" by simp
  moreover from Cons.prems have "insertCompare cmp x xs = x # xs" by (cases xs) auto
  ultimately show ?case by (simp add: sortCompare_def)
qed

text \<open>
  C7, as stated, fails: a strict prefix is not ordered first.  For a package without an
  export map whose \<open>main\<close> is a packed file, the export of \<open>main\<close> has the order
  \<open>[0]\<close> and the exports of the packed files have the empty order; the comparison
  of the orders is a tie, the main export has fewer path segments, and it comes first,
  although its order is a strict extension of the others'.
\<close>

theorem C7_sorted_counterexample:
  "\<not> isl (packageExports exampleWorld codeUnitCompare legacyPackage [''index.js'', ''package.json''])
   \<and> map exp_specifier
        (exportsOf (packageExports exampleWorld codeUnitCompare legacyPackage
                      [''index.js'', ''package.json''])) =
       [''.'', ''./index.js'', ''./package.json'']
   \<and> map exp_jsonPathOrder
        (exportsOf (packageExports exampleWorld codeUnitCompare legacyPackage
                      [''index.js'', ''package.json''])) =
       [[0], [], []]
   \<and> specCompareLess codeUnitCompare
        (exportsOf (packageExports exampleWorld codeUnitCompare legacyPackage
                      [''index.js'', ''package.json'']) ! 1)
        (exportsOf (packageExports exampleWorld codeUnitCompare legacyPackage
                      [''index.js'', ''package.json'']) ! 0)"
  by code_simp

text \<open>
  C7, amended.  The exports of a result are sorted by \<open>compareExport\<close>, which orders
  by the orders padded with zeros, then by the count of path segments of the
  specifier, then by \<open>localeCompare\<close>; sorting them again changes nothing.  This holds
  for every \<open>localeCompare\<close> that is a consistent comparator.
\<close>

theorem C7_sorted:
  assumes "consistentComparator localeCompare"
    and "packageExports w localeCompare packageData packedFilesRaw = Inr st"
  shows "sorted_wrt (\<lambda>left right. compareExport localeCompare left right \<le> 0) (exports st)
       \<and> sortCompare (compareExport localeCompare) (exports st) = exports st"
proof -
  from assms(2) obtain st4 :: state where
    "exports st = sortCompare (compareExport localeCompare) (exports st4)"
    by (auto simp: packageExports_def Let_def split: sum.splits option.splits)
  with sorted_sortCompare [of "compareExport localeCompare" "exports st4",
      OF compareExport_total [OF assms(1)] compareExport_trans [OF assms(1)]]
  have "sorted_wrt (\<lambda>left right. compareExport localeCompare left right \<le> 0) (exports st)"
    by simp
  with sortCompare_sorted [of "compareExport localeCompare" "exports st"] show ?thesis by simp
qed


theorem C7_sorted_witness:
  "consistentComparator codeUnitCompare
   \<and> packageExports exampleWorld codeUnitCompare (examplePackage wildcardExports)
       [''lib/b.js'', ''lib/a.js''] =
     Inr \<lparr>exports =
            [\<lparr>exp_conditions = None, exp_exists = True, exp_filePath = ''./lib/a.js'',
              exp_globbed = True, exp_jsonPath = [Key ''exports'', Key ''./*''],
              exp_jsonPathOrder = [0, 0], exp_specifier = ''./a'',
              exp_url = ''file:///package/./lib/a.js''\<rparr>,
             \<lparr>exp_conditions = None, exp_exists = True, exp_filePath = ''./lib/b.js'',
              exp_globbed = True, exp_jsonPath = [Key ''exports'', Key ''./*''],
              exp_jsonPathOrder = [0, 0], exp_specifier = ''./b'',
              exp_url = ''file:///package/./lib/b.js''\<rparr>],
           negatedExports = [], packagedFiles = [''./lib/b.js'', ''./lib/a.js''],
           messages = [\<lparr>msg_ruleId = ''exports-main-missing'', msg_jsonPath = [],
                        msg_reason = []\<rparr>]\<rparr>
   \<and> sortCompare (compareExport codeUnitCompare)
       [\<lparr>exp_conditions = None, exp_exists = True, exp_filePath = ''./lib/a.js'',
         exp_globbed = True, exp_jsonPath = [Key ''exports'', Key ''./*''],
         exp_jsonPathOrder = [0, 0], exp_specifier = ''./a'',
         exp_url = ''file:///package/./lib/a.js''\<rparr>,
        \<lparr>exp_conditions = None, exp_exists = True, exp_filePath = ''./lib/b.js'',
         exp_globbed = True, exp_jsonPath = [Key ''exports'', Key ''./*''],
         exp_jsonPathOrder = [0, 0], exp_specifier = ''./b'',
         exp_url = ''file:///package/./lib/b.js''\<rparr>] =
       [\<lparr>exp_conditions = None, exp_exists = True, exp_filePath = ''./lib/a.js'',
         exp_globbed = True, exp_jsonPath = [Key ''exports'', Key ''./*''],
         exp_jsonPathOrder = [0, 0], exp_specifier = ''./a'',
         exp_url = ''file:///package/./lib/a.js''\<rparr>,
        \<lparr>exp_conditions = None, exp_exists = True, exp_filePath = ''./lib/b.js'',
         exp_globbed = True, exp_jsonPath = [Key ''exports'', Key ''./*''],
         exp_jsonPathOrder = [0, 0], exp_specifier = ''./b'',
         exp_url = ''file:///package/./lib/b.js''\<rparr>]"
proof -
  let ?es = "[\<lparr>exp_conditions = None, exp_exists = True, exp_filePath = ''./lib/a.js'',
         exp_globbed = True, exp_jsonPath = [Key ''exports'', Key ''./*''],
         exp_jsonPathOrder = [0, 0], exp_specifier = ''./a'',
         exp_url = ''file:///package/./lib/a.js''\<rparr>,
        \<lparr>exp_conditions = None, exp_exists = True, exp_filePath = ''./lib/b.js'',
         exp_globbed = True, exp_jsonPath = [Key ''exports'', Key ''./*''],
         exp_jsonPathOrder = [0, 0], exp_specifier = ''./b'',
         exp_url = ''file:///package/./lib/b.js''\<rparr>]"
  let ?st = "\<lparr>exports = ?es, negatedExports = [],
           packagedFiles = [''./lib/b.js'', ''./lib/a.js''],
           messages = [\<lparr>msg_ruleId = ''exports-main-missing'', msg_jsonPath = [],
                        msg_reason = []\<rparr>]\<rparr>"
  have run: "packageExports exampleWorld codeUnitCompare (examplePackage wildcardExports)
       [''lib/b.js'', ''lib/a.js''] = Inr ?st"
    by code_simp
  from C7_sorted [OF codeUnitCompare_consistent run]
  have "sortCompare (compareExport codeUnitCompare) ?es = ?es" by simp
  with codeUnitCompare_consistent run show ?thesis by (intro conjI)
qed

section \<open>C1: exports that are not packed\<close>

lemma checkNpmIgnored_eq:
  "checkNpmIgnored st =
     st\<lparr>messages := messages st @
          map npmIgnoredMessage (filter (existsUnpacked (packagedFiles st)) (exports st))\<rparr>"
proof -
  have "foldl npmIgnored s es =
        s\<lparr>messages := messages s @
          map npmIgnoredMessage (filter (existsUnpacked (packagedFiles s)) es)\<rparr>" for s es
  proof (induction es arbitrary: s)
    case Nil
    show ?case by simp
  next
    case (Cons e es)
    have step: "npmIgnored s e =
        s\<lparr>messages := messages s @
          (if existsUnpacked (packagedFiles s) e then [npmIgnoredMessage e] else [])\<rparr>"
      by (simp add: npmIgnored_def message_def npmIgnoredMessage_def existsUnpacked_def)
    show ?case
      unfolding foldl_Cons Cons.IH [of "npmIgnored s e"] by (simp add: step)
  qed
  then show ?thesis by (simp add: checkNpmIgnored_def)
qed

lemma noNpmIgnored_message:
  "r \<noteq> ''npm-ignored'' \<Longrightarrow> noNpmIgnored (message st rs r p) = noNpmIgnored st"
  by (simp add: noNpmIgnored_def message_def)

lemma noNpmIgnored_grow:
  "messagesGrow (emittedUnder p) st st' \<Longrightarrow> noNpmIgnored st \<Longrightarrow> noNpmIgnored st'"
  by (auto simp: messagesGrow_def emittedUnder_def noNpmIgnored_def list_all_iff)

lemma noNpmIgnored_messages: "messages st' = messages st \<Longrightarrow> noNpmIgnored st' = noNpmIgnored st"
  by (simp add: noNpmIgnored_def)

lemma noNpmIgnored_checkFields: "noNpmIgnored (checkFields st pd) = noNpmIgnored st"
  by (simp add: checkFields_def Let_def noNpmIgnored_message
      split: option.splits json.splits)

lemma noNpmIgnored_checkMain: "noNpmIgnored (checkMain st pd) = noNpmIgnored st"
  by (simp add: checkMain_def Let_def noNpmIgnored_message)

lemma noNpmIgnored_removeNegated: "noNpmIgnored (removeNegated st n) = noNpmIgnored st"
  by (simp add: removeNegated_def Let_def noNpmIgnored_def message_def)

lemma noNpmIgnored_removeAllNegated: "noNpmIgnored (removeAllNegated st) = noNpmIgnored st"
proof -
  have "noNpmIgnored (foldl removeNegated s ns) = noNpmIgnored s" for s ns
    by (induction ns arbitrary: s) (simp_all add: noNpmIgnored_removeNegated)
  then show ?thesis by (simp add: removeAllNegated_def)
qed

lemma addResolved_definitely_messages:
  "messages (addResolved w st info True e sp v) = messages st"
  by (simp add: addResolved_def Let_def split: option.splits)

lemma noNpmIgnored_resolveMainField:
  "noNpmIgnored (fst (resolveMainField st main type)) = noNpmIgnored st"
proof (cases main)
  case None
  then show ?thesis by (simp add: resolveMainField_def)
next
  case (Some m)
  then show ?thesis
    by (cases m)
      (simp_all add: resolveMainField_def Let_def noNpmIgnored_message split: option.splits)
qed

lemma noNpmIgnored_resolveMainExport:
  "noNpmIgnored (resolveMainExport w st main type) = noNpmIgnored st"
proof -
  obtain st1 mainFound warned where r: "resolveMainField st main type = (st1, mainFound, warned)"
    by (cases "resolveMainField st main type")
  with noNpmIgnored_resolveMainField [of st main type]
  have n: "noNpmIgnored st1 = noNpmIgnored st" by simp
  show ?thesis
  proof (cases mainFound)
    case (Some f)
    with r n show ?thesis
      by (simp add: resolveMainExport_def noNpmIgnored_messages [OF addResolved_definitely_messages])
  next
    case None
    with r n show ?thesis
      by (simp add: resolveMainExport_def noNpmIgnored_message
          noNpmIgnored_messages [OF addResolved_definitely_messages] split: option.splits)
  qed
qed

lemma noNpmIgnored_resolvePackagedFiles:
  "noNpmIgnored (resolvePackagedFiles w st) = noNpmIgnored st"
proof -
  have "messages (foldl (\<lambda>s file. addResolved w s (rootInfo [] [] (Some file)) True False file
           (Some file)) s fs) = messages s" for s fs
    by (induction fs arbitrary: s) (simp_all add: addResolved_definitely_messages)
  then show ?thesis by (simp add: resolvePackagedFiles_def noNpmIgnored_def)
qed

lemma set_sortCompare: "set (sortCompare cmp xs) = set xs"
  by (induction xs) (simp_all add: sortCompare_def set_insertCompare)

lemma filter_insertCompare_length:
  "length (filter P (insertCompare cmp x ys)) = length (filter P (x # ys))"
  by (induction ys) auto

lemma filter_sortCompare_length:
  "length (filter P (sortCompare cmp xs)) = length (filter P xs)"
proof (induction xs)
  case Nil
  show ?case by (simp add: sortCompare_def)
next
  case (Cons x xs)
  have "length (filter P (sortCompare cmp (x # xs))) =
        length (filter P (x # sortCompare cmp xs))"
    by (simp add: sortCompare_def filter_insertCompare_length)
  with Cons show ?case by simp
qed

lemma packageExports_before_check:
  assumes "packageExports w lc pd files = Inr st"
  obtains st3 where "noNpmIgnored st3"
    and "st = (checkNpmIgnored st3)\<lparr>exports := sortCompare (compareExport lc) (exports st3)\<rparr>"
proof (cases "pkg_exports pd")
  case None
  let ?st0 = "\<lparr>exports = [], negatedExports = [],
               packagedFiles = map (pathToPosixPath w) files, messages = []\<rparr>"
  let ?st3 = "resolvePackagedFiles w
                (resolveMainExport w (checkFields ?st0 pd) (pkg_main pd) (pkg_type pd))"
  have "noNpmIgnored ?st3"
    by (simp add: noNpmIgnored_resolvePackagedFiles noNpmIgnored_resolveMainExport
        noNpmIgnored_checkFields) (simp add: noNpmIgnored_def)
  moreover from assms None
  have "st = (checkNpmIgnored ?st3)\<lparr>exports := sortCompare (compareExport lc) (exports ?st3)\<rparr>"
    by (simp add: packageExports_def Let_def checkNpmIgnored_eq)
  ultimately show ?thesis by (rule that)
next
  case (Some exportsValue)
  let ?st0 = "\<lparr>exports = [], negatedExports = [],
               packagedFiles = map (pathToPosixPath w) files, messages = []\<rparr>"
  from assms Some obtain st2 where
    r: "resolveExports w (checkFields ?st0 pd) (rootInfo [Key ''exports''] [0] None) exportsValue
          = Inr st2"
    and s: "st = (checkNpmIgnored (checkMain (removeAllNegated st2) pd))
               \<lparr>exports := sortCompare (compareExport lc)
                   (exports (checkMain (removeAllNegated st2) pd))\<rparr>"
    by (auto simp: packageExports_def Let_def checkNpmIgnored_eq split: sum.splits)
  from walk_emitted(1) r
  have "messagesGrow (emittedUnder (path (rootInfo [Key ''exports''] [0] None)))
          (checkFields ?st0 pd) st2"
    by blast
  moreover have "noNpmIgnored (checkFields ?st0 pd)"
    by (simp add: noNpmIgnored_checkFields) (simp add: noNpmIgnored_def)
  ultimately have "noNpmIgnored st2" by (rule noNpmIgnored_grow)
  then have "noNpmIgnored (checkMain (removeAllNegated st2) pd)"
    by (simp add: noNpmIgnored_checkMain noNpmIgnored_removeAllNegated)
  from this s show ?thesis by (rule that)
qed

text \<open>
  C1, as stated, fails.  The packaging check skips an export that does not exist: for
  \<open>./missing.js\<close>, neither packed nor on disk, the only message is
  \<open>exports-path-not-found\<close>.  For \<open>./local.js\<close>, on disk and not packed, the message
  is made, and its rule is \<open>npm-ignored\<close>.
\<close>

theorem C1_npm_ignored_counterexample:
  "\<not> isl (packageExports exampleWorld codeUnitCompare (examplePackage (JStr ''./missing.js'')) [])
   \<and> map exp_filePath
        (exportsOf (packageExports exampleWorld codeUnitCompare
                      (examplePackage (JStr ''./missing.js'')) [])) = [''./missing.js'']
   \<and> map exp_exists
        (exportsOf (packageExports exampleWorld codeUnitCompare
                      (examplePackage (JStr ''./missing.js'')) [])) = [False]
   \<and> map msg_ruleId
        (messagesOf (packageExports exampleWorld codeUnitCompare
                      (examplePackage (JStr ''./missing.js'')) [])) = [''exports-path-not-found'']
   \<and> map msg_ruleId
        (messagesOf (packageExports exampleWorld codeUnitCompare
                      (examplePackage (JStr ''./local.js'')) [])) = [''npm-ignored'']"
  by code_simp

text \<open>
  C1, amended.  In a result, the \<open>npm-ignored\<close> messages are as many as the exports
  that exist and whose file path is not among the packed files; each such export has
  its message, anchored at its JSON path and naming its file path; and every
  \<open>npm-ignored\<close> message is anchored at the JSON path of such an export.  An export
  that does not exist gets none.
\<close>

theorem C1_npm_ignored:
  assumes "packageExports w localeCompare packageData packedFilesRaw = Inr st"
  shows "length (filter (\<lambda>m. msg_ruleId m = ''npm-ignored'') (messages st)) =
         length (filter (\<lambda>e. exp_exists e \<and> exp_filePath e \<notin> set (packagedFiles st))
                   (exports st))
       \<and> (\<forall>e\<in>set (exports st).
            exp_exists e \<and> exp_filePath e \<notin> set (packagedFiles st) \<longrightarrow>
            \<lparr>msg_ruleId = ''npm-ignored'', msg_jsonPath = exp_jsonPath e,
             msg_reason = [exp_filePath e]\<rparr> \<in> set (messages st))
       \<and> (\<forall>m\<in>set (messages st).
            msg_ruleId m = ''npm-ignored'' \<longrightarrow>
            (\<exists>e\<in>set (exports st).
               exp_exists e \<and> exp_filePath e \<notin> set (packagedFiles st) \<and>
               msg_jsonPath m = exp_jsonPath e))"
proof -
  from assms obtain st3 where
    n: "noNpmIgnored st3"
    and s: "st = (checkNpmIgnored st3)\<lparr>exports := sortCompare (compareExport localeCompare) (exports st3)\<rparr>"
    by (rule packageExports_before_check)
  let ?bad = "existsUnpacked (packagedFiles st3)"
  have bad: "?bad = (\<lambda>e. exp_exists e \<and> exp_filePath e \<notin> set (packagedFiles st))"
    using s by (simp add: existsUnpacked_def checkNpmIgnored_eq fun_eq_iff)
  have m: "messages st = messages st3 @ map npmIgnoredMessage (filter ?bad (exports st3))"
    using s by (simp add: checkNpmIgnored_eq)
  have e: "exports st = sortCompare (compareExport localeCompare) (exports st3)"
    using s by simp
  from n have z: "filter (\<lambda>m. msg_ruleId m = ''npm-ignored'') (messages st3) = []"
    by (simp add: noNpmIgnored_def list_all_iff filter_empty_conv)
  have "filter (\<lambda>m. msg_ruleId m = ''npm-ignored'') (map npmIgnoredMessage es) =
        map npmIgnoredMessage es" for es
    by (induction es) (simp_all add: npmIgnoredMessage_def)
  with m z have "length (filter (\<lambda>m. msg_ruleId m = ''npm-ignored'') (messages st)) =
      length (filter ?bad (exports st3))"
    by simp
  also have "\<dots> = length (filter ?bad (exports st))"
    by (simp add: e filter_sortCompare_length)
  finally have a: "length (filter (\<lambda>m. msg_ruleId m = ''npm-ignored'') (messages st)) =
      length (filter (\<lambda>e. exp_exists e \<and> exp_filePath e \<notin> set (packagedFiles st)) (exports st))"
    by (simp add: bad)
  have b: "\<forall>e\<in>set (exports st).
            exp_exists e \<and> exp_filePath e \<notin> set (packagedFiles st) \<longrightarrow>
            \<lparr>msg_ruleId = ''npm-ignored'', msg_jsonPath = exp_jsonPath e,
             msg_reason = [exp_filePath e]\<rparr> \<in> set (messages st)"
  proof (intro ballI impI)
    fix x
    assume "x \<in> set (exports st)"
      and "exp_exists x \<and> exp_filePath x \<notin> set (packagedFiles st)"
    then have "x \<in> set (filter ?bad (exports st3))"
      by (simp add: e set_sortCompare bad)
    then have "npmIgnoredMessage x \<in> set (messages st)"
      unfolding m by simp
    then show "\<lparr>msg_ruleId = ''npm-ignored'', msg_jsonPath = exp_jsonPath x,
             msg_reason = [exp_filePath x]\<rparr> \<in> set (messages st)"
      by (simp add: npmIgnoredMessage_def)
  qed
  have c: "\<forall>m\<in>set (messages st).
            msg_ruleId m = ''npm-ignored'' \<longrightarrow>
            (\<exists>e\<in>set (exports st).
               exp_exists e \<and> exp_filePath e \<notin> set (packagedFiles st) \<and>
               msg_jsonPath m = exp_jsonPath e)"
  proof (intro ballI impI)
    fix x
    assume x: "x \<in> set (messages st)" and r: "msg_ruleId x = ''npm-ignored''"
    from n r have "x \<notin> set (messages st3)"
      by (auto simp: noNpmIgnored_def list_all_iff)
    with x m obtain y where y: "y \<in> set (exports st3)" "?bad y" "x = npmIgnoredMessage y"
      by auto
    from y(1) have "y \<in> set (exports st)" by (simp add: e set_sortCompare)
    moreover from y(2) have "exp_exists y \<and> exp_filePath y \<notin> set (packagedFiles st)"
      by (simp add: bad)
    moreover from y(3) have "msg_jsonPath x = exp_jsonPath y"
      by (simp add: npmIgnoredMessage_def)
    ultimately show "\<exists>e\<in>set (exports st).
               exp_exists e \<and> exp_filePath e \<notin> set (packagedFiles st) \<and>
               msg_jsonPath x = exp_jsonPath e"
      by blast
  qed
  from a b c show ?thesis by (intro conjI)
qed


theorem C1_npm_ignored_witness:
  "packageExports exampleWorld codeUnitCompare (examplePackage (JStr ''./local.js'')) [] =
     Inr \<lparr>exports =
            [\<lparr>exp_conditions = None, exp_exists = True, exp_filePath = ''./local.js'',
              exp_globbed = False, exp_jsonPath = [Key ''exports''], exp_jsonPathOrder = [0],
              exp_specifier = ''.'', exp_url = ''file:///package/./local.js''\<rparr>],
           negatedExports = [], packagedFiles = [],
           messages = [\<lparr>msg_ruleId = ''npm-ignored'', msg_jsonPath = [Key ''exports''],
                        msg_reason = [''./local.js'']\<rparr>]\<rparr>
   \<and> length (filter (\<lambda>m. msg_ruleId m = ''npm-ignored'')
         [\<lparr>msg_ruleId = ''npm-ignored'', msg_jsonPath = [Key ''exports''],
           msg_reason = [''./local.js'']\<rparr>]) = 1
   \<and> \<lparr>msg_ruleId = ''npm-ignored'', msg_jsonPath = [Key ''exports''],
       msg_reason = [''./local.js'']\<rparr>
     \<in> set [\<lparr>msg_ruleId = ''npm-ignored'', msg_jsonPath = [Key ''exports''],
              msg_reason = [''./local.js'']\<rparr>]"
proof -
  let ?m = "\<lparr>msg_ruleId = ''npm-ignored'', msg_jsonPath = [Key ''exports''],
             msg_reason = [''./local.js'']\<rparr>"
  let ?st = "\<lparr>exports =
            [\<lparr>exp_conditions = None, exp_exists = True, exp_filePath = ''./local.js'',
              exp_globbed = False, exp_jsonPath = [Key ''exports''], exp_jsonPathOrder = [0],
              exp_specifier = ''.'', exp_url = ''file:///package/./local.js''\<rparr>],
           negatedExports = [], packagedFiles = [], messages = [?m]\<rparr>"
  have run: "packageExports exampleWorld codeUnitCompare (examplePackage (JStr ''./local.js'')) []
      = Inr ?st"
    by code_simp
  from C1_npm_ignored [OF run]
  have "length (filter (\<lambda>m. msg_ruleId m = ''npm-ignored'') [?m]) = 1" and "?m \<in> set [?m]"
    by simp_all
  with run show ?thesis by (intro conjI)
qed

section \<open>C4: the removal of negated exports\<close>

text \<open>
  The loop with \<open>splice\<close> keeps the exports that do not match the negation, in their
  order, and finds a match exactly when the list holds one; without a match the exports
  stay as they are and one \<open>exports-negated-missing\<close> message is made.
\<close>

lemma negateLoop_eq:
  "negateLoop negated exps i found =
     (take i exps @ filter (\<lambda>e. \<not> negationMatches negated e) (drop i exps),
      found \<or> list_ex (negationMatches negated) (drop i exps))"
proof (induction negated exps i found rule: negateLoop.induct)
  case (1 negated exps i found)
  show ?case
  proof (cases "i < length exps")
    case False
    then show ?thesis by (subst negateLoop.simps) simp
  next
    case True
    then have d: "drop i exps = exps ! i # drop (Suc i) exps"
      by (simp add: Cons_nth_drop_Suc)
    show ?thesis
    proof (cases "negationMatches negated (exps ! i)")
      case m: True
      from True have t: "take i (take i exps @ drop (Suc i) exps) = take i exps"
        by simp
      from True have dd: "drop i (take i exps @ drop (Suc i) exps) = drop (Suc i) exps"
        by simp
      from 1(1) [OF True m] True m show ?thesis
        by (subst negateLoop.simps) (simp add: d t dd)
    next
      case m: False
      from 1(2) [OF True m] True m show ?thesis
        by (subst negateLoop.simps) (simp add: d take_Suc_conv_app_nth)
    qed
  qed
qed

lemma removeNegated_exports:
  "exports (removeNegated st negated) =
     filter (\<lambda>e. \<not> negationMatches negated e) (exports st)"
  by (simp add: removeNegated_def negateLoop_eq Let_def message_def)

lemma removeNegated_messages:
  "messages (removeNegated st negated) =
     messages st @
     (if list_ex (negationMatches negated) (exports st) then []
      else [\<lparr>msg_ruleId = ''exports-negated-missing'', msg_jsonPath = neg_jsonPath negated,
             msg_reason = [neg_specifier negated]\<rparr>])"
  by (simp add: removeNegated_def negateLoop_eq Let_def message_def)

lemma removeNegated_nothing:
  "\<not> list_ex (negationMatches negated) (exports st) \<Longrightarrow>
   exports (removeNegated st negated) = exports st"
  by (simp add: removeNegated_exports list_ex_iff filter_id_conv)

lemma arrayEquivalent_distinct:
  assumes "distinct left" and "distinct right"
  shows "arrayEquivalent left right = (set left = set right)"
proof
  assume "arrayEquivalent left right"
  then have l: "length left = length right" and s: "set left \<subseteq> set right"
    by (auto simp: arrayEquivalent_def list_all_iff)
  from assms l have "card (set left) = card (set right)"
    by (simp add: distinct_card)
  with s show "set left = set right"
    by (simp add: card_subset_eq)
next
  assume e: "set left = set right"
  with assms have "length left = length right"
    by (metis distinct_card)
  with e show "arrayEquivalent left right"
    by (simp add: arrayEquivalent_def list_all_iff)
qed

text \<open>
  C4.  \<open>arrayEquivalent\<close> compares the lengths and checks that every value of the left
  array occurs in the right one.  On arrays without duplicates this is equality of the
  sets (\<open>arrayEquivalent_distinct\<close>); on the conditions \<open>node, node\<close> of an export and
  \<open>node, browser\<close> of a negation it holds although the sets differ.  The export of the
  map below is removed by a negation whose conditions are not equivalent to its own, and
  no \<open>exports-negated-missing\<close> message is made.
\<close>

theorem C4_negation_duplicate_conditions:
  "exportsOf (resolveExports exampleWorld (emptyState [''./a.js''])
                (rootInfo [Key ''exports''] [0] None) duplicateConditionNegation) =
     [\<lparr>exp_conditions = Some [''node'', ''node''], exp_exists = True,
       exp_filePath = ''./a.js'', exp_globbed = False,
       exp_jsonPath = [Key ''exports'', Key ''./a'', Key ''node'', Key ''node''],
       exp_jsonPathOrder = [0, 0, 0, 0], exp_specifier = ''./a'',
       exp_url = ''file:///package/./a.js''\<rparr>]
   \<and> set [''node'', ''node''] \<noteq> set [''node'', ''browser'']
   \<and> arrayEquivalent [''node'', ''node''] [''node'', ''browser'']
   \<and> \<not> isl (packageExports exampleWorld codeUnitCompare
              (examplePackage duplicateConditionNegation) [''a.js''])
   \<and> exportsOf (packageExports exampleWorld codeUnitCompare
                  (examplePackage duplicateConditionNegation) [''a.js'']) = []
   \<and> countMessages ''exports-negated-missing''
        [Key ''exports'', Key ''./a'', Key ''node'', Key ''browser'']
        (messagesOf (packageExports exampleWorld codeUnitCompare
                       (examplePackage duplicateConditionNegation) [''a.js''])) = 0"
  by code_simp

section \<open>C3: the round trip of a wildcard\<close>

lemma addResolved_definitely:
  "addResolved w st info True e sp (Some v) =
     st\<lparr>exports := exports st @
          [\<lparr>exp_conditions = conditions info, exp_exists = True, exp_filePath = v,
            exp_globbed = (\<not> e), exp_jsonPath = path info, exp_jsonPathOrder = pathOrder info,
            exp_specifier = sp, exp_url = resolveUrl w v\<rparr>]\<rparr>"
  by (simp add: addResolved_def Let_def)

lemma foldl_addResolved_wildcard:
  "foldl (\<lambda>s replacement.
            addResolved w s info True False (before @ replacement @ after)
              (Some (join_str replacement valueParts))) st rs =
     st\<lparr>exports := exports st @ map (wildcardExport w info before after valueParts) rs\<rparr>"
proof (induction rs arbitrary: st)
  case Nil
  show ?case by simp
next
  case (Cons r rs)
  show ?case
    unfolding foldl_Cons Cons.IH by (simp add: addResolved_definitely wildcardExport_def)
qed

lemma wildcardReplacement_Some:
  "wildcardReplacement parts filePath = Inr (Some r) \<Longrightarrow> join_str r parts = filePath"
  by (auto simp: wildcardReplacement_def Let_def find_Some_iff split: list.splits if_splits)

lemma findWildcardReplacementsLoop_spec:
  "findWildcardReplacementsLoop parts results filePaths = Inr rs \<Longrightarrow>
   \<exists>new. rs = results @ new \<and>
     map (\<lambda>r. join_str r parts) new =
       filter (\<lambda>f. wildcardReplacement parts f \<noteq> Inr None) filePaths"
proof (induction filePaths arbitrary: results)
  case Nil
  then show ?case by simp
next
  case (Cons f fs)
  show ?case
  proof (cases "wildcardReplacement parts f")
    case (Inl e)
    with Cons.prems show ?thesis by simp
  next
    case (Inr found)
    show ?thesis
    proof (cases found)
      case None
      with Inr Cons show ?thesis by simp
    next
      case (Some r)
      with Inr Cons.prems have "findWildcardReplacementsLoop parts (results @ [r]) fs = Inr rs"
        by simp
      from Cons.IH [OF this] obtain new where
        n: "rs = (results @ [r]) @ new"
        "map (\<lambda>r. join_str r parts) new =
           filter (\<lambda>f. wildcardReplacement parts f \<noteq> Inr None) fs"
        by blast
      from Inr Some have "join_str r parts = f" by (simp add: wildcardReplacement_Some)
      with n Inr Some have "rs = results @ (r # new) \<and>
          map (\<lambda>r. join_str r parts) (r # new) =
            filter (\<lambda>f. wildcardReplacement parts f \<noteq> Inr None) (f # fs)"
        by simp
      then show ?thesis by blast
    qed
  qed
qed

lemma join_str_two: "join_str r [first, second] = first @ r @ second"
  by simp

lemma wildcardReplacement_returns:
  "slice filePath 0 (length first) = first \<Longrightarrow>
   \<exists>r. wildcardReplacement (first # second # rest) filePath = Inr r"
  by (simp add: wildcardReplacement_def Let_def)

lemma findWildcardReplacementsLoop_returns:
  "\<forall>f\<in>set filePaths. slice f 0 (length first) = first \<Longrightarrow>
   \<exists>rs. findWildcardReplacementsLoop (first # second # rest) results filePaths = Inr rs"
proof (induction filePaths arbitrary: results)
  case Nil
  show ?case by simp
next
  case (Cons f fs)
  from Cons.prems wildcardReplacement_returns [of f first second rest]
  obtain r where r: "wildcardReplacement (first # second # rest) f = Inr r" by auto
  from Cons.prems have "\<forall>f\<in>set fs. slice f 0 (length first) = first" by simp
  from Cons.IH [OF this] r show ?case by (cases r) simp_all
qed

lemma addDynamic_returns:
  assumes "\<forall>f\<in>set (packagedFiles st).
             minimatch w (join_str ''**/*'' (first # second # rest)) f \<longrightarrow>
             slice f 0 (length first) = first"
  shows "\<exists>st'. addDynamic w st info specifierParts (first # second # rest) = Inr st'"
proof -
  let ?results = "filter (minimatch w (join_str ''**/*'' (first # second # rest))) (packagedFiles st)"
  from assms have "\<forall>f\<in>set ?results. slice f 0 (length first) = first" by simp
  from findWildcardReplacementsLoop_returns [OF this, of second rest "[]"]
  obtain rs where "findWildcardReplacements (first # second # rest) ?results = Inr rs"
    by (auto simp: findWildcardReplacements_def)
  then show ?thesis by (simp add: addDynamic_def Let_def)
qed

text \<open>
  C3.  When \<open>addDynamic\<close> returns, the exports it has added are, one for each
  replacement and in their order, the exports with specifier \<open>before @ replacement @
  after\<close>, marked as existing and as made by a glob, whose file path is the value parts
  joined by the replacement.  Joined so, the replacements give back exactly the matched
  packed files for which a replacement was found, in the order of the packed files (for
  two parts the join is \<open>first @ replacement @ second\<close>, \<open>join_str_two\<close>); and when
  the packed files are pairwise distinct, so are the replacements.  \<open>addDynamic\<close>
  returns whenever there are two parts or more and every matched file starts with the
  first part (\<open>addDynamic_returns\<close>).
\<close>

theorem C3_wildcard_round_trip:
  assumes "addDynamic w st info (before, after) valueParts = Inr st'"
  shows "\<exists>replacements.
           exports st' =
             exports st @ map (wildcardExport w info before after valueParts) replacements
         \<and> map (\<lambda>replacement. join_str replacement valueParts) replacements =
             filter (\<lambda>filePath. wildcardReplacement valueParts filePath \<noteq> Inr None)
               (filter (minimatch w (join_str ''**/*'' valueParts)) (packagedFiles st))
         \<and> list_all (\<lambda>replacement.
                        join_str replacement valueParts \<in> set (packagedFiles st) \<and>
                        minimatch w (join_str ''**/*'' valueParts)
                          (join_str replacement valueParts))
             replacements
         \<and> (distinct (packagedFiles st) \<longrightarrow> distinct replacements)"
proof (cases "filter (minimatch w (join_str ''**/*'' valueParts)) (packagedFiles st) = []")
  case True
  with assms have "exports st' = exports st"
    by (auto simp: addDynamic_def message_def)
  with True have "exports st' =
             exports st @ map (wildcardExport w info before after valueParts) []
         \<and> map (\<lambda>replacement. join_str replacement valueParts) [] =
             filter (\<lambda>filePath. wildcardReplacement valueParts filePath \<noteq> Inr None)
               (filter (minimatch w (join_str ''**/*'' valueParts)) (packagedFiles st))
         \<and> list_all (\<lambda>replacement.
                        join_str replacement valueParts \<in> set (packagedFiles st) \<and>
                        minimatch w (join_str ''**/*'' valueParts)
                          (join_str replacement valueParts))
             []
         \<and> (distinct (packagedFiles st) \<longrightarrow> distinct ([] :: string list))"
    by simp
  then show ?thesis by blast
next
  case False
  let ?results = "filter (minimatch w (join_str ''**/*'' valueParts)) (packagedFiles st)"
  from assms False obtain rs where
    f: "findWildcardReplacements valueParts ?results = Inr rs"
    and s: "st' = foldl (\<lambda>s replacement.
                  addResolved w s info True False (before @ replacement @ after)
                    (Some (join_str replacement valueParts))) st rs"
    by (auto simp: addDynamic_def Let_def split: sum.splits)
  from f findWildcardReplacementsLoop_spec [of valueParts "[]" ?results rs]
  have m: "map (\<lambda>r. join_str r valueParts) rs =
        filter (\<lambda>f. wildcardReplacement valueParts f \<noteq> Inr None) ?results"
    by (auto simp: findWildcardReplacements_def)
  have a: "exports st' = exports st @ map (wildcardExport w info before after valueParts) rs"
    using s by (simp add: foldl_addResolved_wildcard)
  have "set (map (\<lambda>r. join_str r valueParts) rs) \<subseteq> set ?results"
    unfolding m by auto
  then have c: "list_all (\<lambda>replacement.
                        join_str replacement valueParts \<in> set (packagedFiles st) \<and>
                        minimatch w (join_str ''**/*'' valueParts)
                          (join_str replacement valueParts)) rs"
    by (auto simp: list_all_iff)
  have d: "distinct (packagedFiles st) \<longrightarrow> distinct rs"
  proof
    assume "distinct (packagedFiles st)"
    then have "distinct (map (\<lambda>r. join_str r valueParts) rs)"
      unfolding m by simp
    then show "distinct rs" by (simp add: distinct_map)
  qed
  from a m c d show ?thesis by blast
qed


theorem C3_wildcard_round_trip_witness:
  "addDynamic exampleWorld (emptyState [''./lib/a.js'', ''./index.js'', ''./lib/x/b.js''])
     (rootInfo [Key ''exports'', Key ''./*''] [0, 0] (Some ''./*'')) (''./'', [])
     [''./lib/'', ''.js''] =
   Inr \<lparr>exports =
          [\<lparr>exp_conditions = None, exp_exists = True, exp_filePath = ''./lib/a.js'',
            exp_globbed = True, exp_jsonPath = [Key ''exports'', Key ''./*''],
            exp_jsonPathOrder = [0, 0], exp_specifier = ''./a'',
            exp_url = ''file:///package/./lib/a.js''\<rparr>,
           \<lparr>exp_conditions = None, exp_exists = True, exp_filePath = ''./lib/x/b.js'',
            exp_globbed = True, exp_jsonPath = [Key ''exports'', Key ''./*''],
            exp_jsonPathOrder = [0, 0], exp_specifier = ''./x/b'',
            exp_url = ''file:///package/./lib/x/b.js''\<rparr>],
         negatedExports = [],
         packagedFiles = [''./lib/a.js'', ''./index.js'', ''./lib/x/b.js''],
         messages = []\<rparr>
   \<and> (\<exists>replacements.
         map (\<lambda>replacement. ''./lib/'' @ replacement @ ''.js'') replacements =
           [''./lib/a.js'', ''./lib/x/b.js'']
       \<and> [''./a'', ''./x/b''] = map (\<lambda>replacement. ''./'' @ replacement) replacements
       \<and> distinct replacements)"
proof -
  let ?st = "emptyState [''./lib/a.js'', ''./index.js'', ''./lib/x/b.js'']"
  let ?info = "rootInfo [Key ''exports'', Key ''./*''] [0, 0] (Some ''./*'')"
  let ?parts = "[''./lib/'', ''.js'']"
  let ?es = "[\<lparr>exp_conditions = None, exp_exists = True, exp_filePath = ''./lib/a.js'',
            exp_globbed = True, exp_jsonPath = [Key ''exports'', Key ''./*''],
            exp_jsonPathOrder = [0, 0], exp_specifier = ''./a'',
            exp_url = ''file:///package/./lib/a.js''\<rparr>,
           \<lparr>exp_conditions = None, exp_exists = True, exp_filePath = ''./lib/x/b.js'',
            exp_globbed = True, exp_jsonPath = [Key ''exports'', Key ''./*''],
            exp_jsonPathOrder = [0, 0], exp_specifier = ''./x/b'',
            exp_url = ''file:///package/./lib/x/b.js''\<rparr>]"
  let ?st1 = "\<lparr>exports = ?es, negatedExports = [],
         packagedFiles = [''./lib/a.js'', ''./index.js'', ''./lib/x/b.js''],
         messages = []\<rparr>"
  have run: "addDynamic exampleWorld ?st ?info (''./'', []) ?parts = Inr ?st1"
    by code_simp
  have files: "filter (\<lambda>filePath. wildcardReplacement ?parts filePath \<noteq> Inr None)
       (filter (minimatch exampleWorld (join_str ''**/*'' ?parts)) (packagedFiles ?st)) =
     [''./lib/a.js'', ''./lib/x/b.js'']"
    by code_simp
  have d: "distinct (packagedFiles ?st)"
    by (simp add: emptyState_def)
  from C3_wildcard_round_trip [OF run] obtain rs where
    e: "exports ?st1 = exports ?st @ map (wildcardExport exampleWorld ?info ''./'' [] ?parts) rs"
    and m: "map (\<lambda>replacement. join_str replacement ?parts) rs =
      filter (\<lambda>filePath. wildcardReplacement ?parts filePath \<noteq> Inr None)
       (filter (minimatch exampleWorld (join_str ''**/*'' ?parts)) (packagedFiles ?st))"
    and i: "distinct (packagedFiles ?st) \<longrightarrow> distinct rs"
    by blast
  from m files have 1: "map (\<lambda>replacement. ''./lib/'' @ replacement @ ''.js'') rs =
      [''./lib/a.js'', ''./lib/x/b.js'']"
    by simp
  from e have "map exp_specifier ?es =
      map exp_specifier (map (wildcardExport exampleWorld ?info ''./'' [] ?parts) rs)"
    by (simp add: emptyState_def)
  then have 2: "[''./a'', ''./x/b''] = map (\<lambda>replacement. ''./'' @ replacement) rs"
    by (simp add: wildcardExport_def comp_def)
  from i d have 3: "distinct rs" by simp
  from 1 2 3 have "\<exists>replacements.
         map (\<lambda>replacement. ''./lib/'' @ replacement @ ''.js'') replacements =
           [''./lib/a.js'', ''./lib/x/b.js'']
       \<and> [''./a'', ''./x/b''] = map (\<lambda>replacement. ''./'' @ replacement) replacements
       \<and> distinct replacements"
    by (intro exI [of _ rs] conjI)
  with run show ?thesis by (intro conjI)
qed

section \<open>C2: the specifier of an export\<close>

lemma exportsGrow_refl: "exportsGrow P st st"
  by (simp add: exportsGrow_def)

lemma exportsGrow_same: "exports st' = exports st \<Longrightarrow> exportsGrow P st st'"
  by (simp add: exportsGrow_def)

lemma exportsGrow_trans: "exportsGrow P a b \<Longrightarrow> exportsGrow P b c \<Longrightarrow> exportsGrow P a c"
  by (auto simp: exportsGrow_def)

lemma exportsGrow_message_left:
  "exportsGrow P (message st rs r p) st' = exportsGrow P st st'"
  by (simp add: exportsGrow_def message_def)

lemma exportsGrow_message: "exportsGrow P st (message st rs r p)"
  by (simp add: exportsGrow_def message_def)

lemma indexOfChar_None: "(indexOfChar s c = None) = (c \<notin> set s)"
  by (induction s) auto

lemma indexOfChar_Some:
  "indexOfChar s c = Some i \<Longrightarrow> i < length s \<and> s ! i = c \<and> c \<notin> set (take i s)"
proof (induction s arbitrary: i)
  case Nil
  then show ?case by simp
next
  case (Cons x s)
  show ?case
  proof (cases "x = c")
    case True
    with Cons.prems show ?thesis by simp
  next
    case False
    with Cons.prems obtain j where j: "indexOfChar s c = Some j" "i = Suc j"
      by auto
    from Cons.IH [OF j(1)] j(2) False show ?thesis by simp
  qed
qed

lemma count_one:
  assumes "indexOfChar s c = Some i" and "c \<notin> set (drop (Suc i) s)"
  shows "count_list s c = 1"
proof -
  from indexOfChar_Some [OF assms(1)]
  have i: "i < length s" "s ! i = c" "c \<notin> set (take i s)" by simp_all
  from i(1) have "s = take i s @ s ! i # drop (Suc i) s"
    by (simp add: id_take_nth_drop)
  then have "count_list s c = count_list (take i s @ s ! i # drop (Suc i) s) c"
    by simp
  also have "\<dots> = 1"
    using i(2,3) assms(2) by (simp add: count_list_0_iff)
  finally show ?thesis .
qed

lemma split_str_two: "c \<in> set s \<Longrightarrow> \<exists>a b rest. split_str c s = a # b # rest"
proof (induction s)
  case Nil
  then show ?case by simp
next
  case (Cons x s)
  show ?case
  proof (cases "x = c")
    case True
    from split_str_ne [of c s] obtain y ys where "split_str c s = y # ys"
      by (cases "split_str c s") auto
    with True show ?thesis by simp
  next
    case False
    with Cons.prems have "c \<in> set s" by simp
    from Cons.IH [OF this] obtain a b rest where "split_str c s = a # b # rest" by blast
    with False show ?thesis by simp
  qed
qed

lemma join_str_holds: "set r \<subseteq> set (join_str r (a # b # rest))"
  by auto

lemma startsWith_dot: "startsWith s ''.'' = (\<exists>t. s = CHR ''.'' # t)"
  by (cases s) (auto simp: startsWith_def)

lemma addResolved_exports:
  "\<exists>ex. exports (addResolved w st info d e sp (Some v)) =
     exports st @
     [\<lparr>exp_conditions = conditions info, exp_exists = ex, exp_filePath = v,
       exp_globbed = (\<not> e), exp_jsonPath = path info, exp_jsonPathOrder = pathOrder info,
       exp_specifier = sp, exp_url = resolveUrl w v\<rparr>]"
  by (auto simp: addResolved_def checkExists_def Let_def message_def)

lemma addResolved_None_exports: "exports (addResolved w st info d e sp None) = exports st"
  by (simp add: addResolved_def)

lemma addResolved_grow:
  assumes "\<And>ex. P \<lparr>exp_conditions = conditions info, exp_exists = ex, exp_filePath = v,
       exp_globbed = (\<not> e), exp_jsonPath = path info, exp_jsonPathOrder = pathOrder info,
       exp_specifier = sp, exp_url = resolveUrl w v\<rparr>"
  shows "exportsGrow P st (addResolved w st info d e sp (Some v))"
  using addResolved_exports [of w st info d e sp v] assms
  by (auto simp: exportsGrow_def)

lemma addDynamic_exports:
  assumes "addDynamic w st info (before, after) valueParts = Inr st'"
  shows "\<exists>rs. exports st' =
           exports st @ map (wildcardExport w info before after valueParts) rs"
proof (cases "filter (minimatch w (join_str ''**/*'' valueParts)) (packagedFiles st) = []")
  case True
  with assms have "exports st' = exports st @ map (wildcardExport w info before after valueParts) []"
    by (auto simp: addDynamic_def message_def)
  then show ?thesis by blast
next
  case False
  with assms obtain rs where
    "st' = foldl (\<lambda>s replacement.
                  addResolved w s info True False (before @ replacement @ after)
                    (Some (join_str replacement valueParts))) st rs"
    by (auto simp: addDynamic_def Let_def split: sum.splits)
  then have "exports st' = exports st @ map (wildcardExport w info before after valueParts) rs"
    by (simp add: foldl_addResolved_wildcard)
  then show ?thesis by blast
qed

lemma addDynamic_grow:
  assumes run: "addDynamic w st info (before, after) (a # b # rest) = Inr st'"
    and dot: "startsWith before ''.''"
    and nb: "CHR ''*'' \<notin> set before" and na: "CHR ''*'' \<notin> set after"
  shows "exportsGrow specifierShape st st'"
proof -
  from addDynamic_exports [OF run] obtain rs where
    e: "exports st' = exports st @ map (wildcardExport w info before after (a # b # rest)) rs"
    by blast
  have "specifierShape (wildcardExport w info before after (a # b # rest) r)" for r
    using dot nb na
    by (auto simp: specifierShape_def wildcardExport_def startsWith_dot)
  with e show ?thesis by (auto simp: exportsGrow_def list_all_iff)
qed

lemma addValue_grow:
  assumes run: "addValue w st info v = Inr st'" and ctx: "specifierContext info"
  shows "exportsGrow specifierShape st st'"
proof (cases "v \<noteq> JNull \<and> (case v of JStr s \<Rightarrow> Some s | _ \<Rightarrow> None) = None")
  case True
  with run show ?thesis
    by (auto simp: addValue_def Let_def exportsGrow_message)
next
  case False
  show ?thesis
  proof (cases v)
    case JNull
    with run show ?thesis
      by (auto simp: addValue_def Let_def intro!: exportsGrow_same addResolved_None_exports)
  next
    case (JStr s)
    show ?thesis
    proof (cases "startsWith s ''./''")
      case f: False
      with run JStr show ?thesis by (auto simp: addValue_def Let_def exportsGrow_message)
    next
      case p: True
      let ?spec = "specifierOrDot info"
      from ctx have dot: "startsWith ?spec ''.''" by (simp add: specifierContext_def)
      show ?thesis
      proof (cases "indexOfChar ?spec CHR ''*''")
        case None
        then have "CHR ''*'' \<notin> set ?spec" by (simp add: indexOfChar_None)
        with dot have "\<And>ex. specifierShape \<lparr>exp_conditions = conditions info, exp_exists = ex,
            exp_filePath = s, exp_globbed = (\<not> True), exp_jsonPath = path info,
            exp_jsonPathOrder = pathOrder info, exp_specifier = ?spec,
            exp_url = resolveUrl w s\<rparr>"
          by (simp add: specifierShape_def)
        then have "exportsGrow specifierShape st (addResolved w st info False True ?spec (Some s))"
          by (rule addResolved_grow)
        with run JStr p None show ?thesis by (simp add: addValue_def Let_def)
      next
        case (Some i)
        show ?thesis
        proof (cases "includesFrom ?spec CHR ''*'' (Suc i)")
          case True
          with run JStr p Some show ?thesis
            by (auto simp: addValue_def Let_def exportsGrow_message)
        next
          case nf: False
          then have rest: "CHR ''*'' \<notin> set (drop (Suc i) ?spec)"
            by (simp add: includesFrom_def)
          show ?thesis
          proof (cases "indexOfChar s CHR ''*''")
            case None
            then have ns: "CHR ''*'' \<notin> set s" by (simp add: indexOfChar_None)
            from count_one [OF Some rest] dot ns
            have "\<And>ex. specifierShape \<lparr>exp_conditions = conditions info, exp_exists = ex,
                exp_filePath = s, exp_globbed = (\<not> True), exp_jsonPath = path info,
                exp_jsonPathOrder = pathOrder info, exp_specifier = ?spec,
                exp_url = resolveUrl w s\<rparr>"
              by (simp add: specifierShape_def)
            then have "exportsGrow specifierShape
                (message st [?spec, s] ''exports-specifier-wildcard-useless'' (path info))
                (addResolved w
                  (message st [?spec, s] ''exports-specifier-wildcard-useless'' (path info))
                  info False True ?spec (Some s))"
              by (rule addResolved_grow)
            with run JStr p Some nf None show ?thesis
              by (simp add: addValue_def Let_def exportsGrow_message_left)
          next
            case vs: (Some j)
            then have "CHR ''*'' \<in> set s"
              using indexOfChar_None [of s "CHR ''*''"] by simp
            from split_str_two [OF this] obtain a b rest' where
              sp: "split_str CHR ''*'' s = a # b # rest'" by blast
            from run JStr p Some nf vs sp
            have d: "addDynamic w st info (slice ?spec 0 i, sliceFrom ?spec (Suc i))
                       (a # b # rest') = Inr st'"
              by (simp add: addValue_def Let_def)
            from indexOfChar_Some [OF Some]
            have i: "i < length ?spec" "?spec ! i = CHR ''*''" "CHR ''*'' \<notin> set (take i ?spec)"
              by simp_all
            from dot i(1,2) have "startsWith (slice ?spec 0 i) ''.''"
              by (cases i) (auto simp: startsWith_dot slice_def)
            moreover from i(3) have "CHR ''*'' \<notin> set (slice ?spec 0 i)"
              by (simp add: slice_def)
            moreover from rest have "CHR ''*'' \<notin> set (sliceFrom ?spec (Suc i))"
              by (simp add: sliceFrom_def)
            ultimately show ?thesis by (rule addDynamic_grow [OF d])
          qed
        qed
      qed
    qed
  next
    case (JBool x)
    with False show ?thesis by simp
  next
    case (JNum x)
    with False show ?thesis by simp
  next
    case (JArr x)
    with False show ?thesis by simp
  next
    case (JObj x)
    with False show ?thesis by simp
  qed
qed

lemma dotsLoop_Some:
  "dotsLoop keys (Some d) mixed = (Some d, mixed \<or> (\<exists>k\<in>set keys. startsWith k ''.'' \<noteq> d))"
  by (induction keys arbitrary: mixed) (auto simp: Let_def)

lemma dotsLoop_specifiers:
  assumes "fst (dotsLoop keys None False) \<noteq> None"
    and "\<not> snd (dotsLoop keys None False)"
    and "the (fst (dotsLoop keys None False))"
  shows "\<forall>k\<in>set keys. startsWith k ''.''"
proof (cases keys)
  case Nil
  with assms(1) show ?thesis by simp
next
  case (Cons k ks)
  with assms show ?thesis by (auto simp: Let_def dotsLoop_Some)
qed

lemma specifierContext_key:
  "startsWith k ''.'' \<Longrightarrow> specifierContext (info\<lparr>path := p, pathOrder := po, specifier := Some k\<rparr>)"
  by (auto simp: specifierContext_def specifierOrDot_def startsWith_dot)

lemma specifierContext_conditions:
  "specifierContext (info\<lparr>conditions := c, path := p, pathOrder := po\<rparr>) = specifierContext info"
  by (simp add: specifierContext_def specifierOrDot_def)

lemma specifierContext_list:
  "specifierContext (info\<lparr>path := p, pathOrder := po\<rparr>) = specifierContext info"
  by (simp add: specifierContext_def specifierOrDot_def)

lemma exports_conditionsVerbose: "exports (conditionsVerbose st info keys) = exports st"
  by (simp add: conditionsVerbose_def message_def)

lemma exports_typesVerbose: "exports (typesVerbose st info kvs) = exports st"
  by (simp add: typesVerbose_def message_def Let_def split: option.splits json.splits)

lemma exports_exclusiveChecks: "exports (exclusiveChecks st info c) = exports st"
  by (simp add: exclusiveChecks_messages)

lemma exports_extensionCheck: "exports (extensionCheck st info keys sp) = exports st"
  by (simp add: extensionCheck_def message_def Let_def)

lemma exports_conditionsFinish:
  "conditionsFinish st info keys = Inr st' \<Longrightarrow> exports st' = exports st"
  by (auto simp: conditionsFinish_def message_def split: if_splits)

lemma exportsGrow_left: "exportsGrow P a' b \<Longrightarrow> exports a' = exports a \<Longrightarrow> exportsGrow P a b"
  by (simp add: exportsGrow_def)

lemma exportsGrow_right: "exportsGrow P a b \<Longrightarrow> exports b' = exports b \<Longrightarrow> exportsGrow P a b'"
  by (simp add: exportsGrow_def)

lemma leaf_exports:
  "\<forall>st'. addValue w st info v = Inr st' \<longrightarrow> specifierContext info \<longrightarrow>
      exportsGrow specifierShape st st'"
  by (blast intro: addValue_grow)

lemma walk_exports:
  "(\<forall>st'. resolveExports w st info v = Inr st' \<longrightarrow> specifierContext info \<longrightarrow>
      exportsGrow specifierShape st st')"
  "(\<forall>st'. resolveExportsList w st info xs = Inr st' \<longrightarrow> specifierContext info \<longrightarrow>
      exportsGrow specifierShape st st')"
  "(\<forall>st'. resolveExportsObject w st info kvs = Inr st' \<longrightarrow> specifierContext info \<longrightarrow>
      exportsGrow specifierShape st st')"
  "(\<forall>st'. resolveExportsConditions w st info kvs = Inr st' \<longrightarrow> specifierContext info \<longrightarrow>
      exportsGrow specifierShape st st')"
  "(\<forall>st'. conditionsLoop w st info kvs i = Inr st' \<longrightarrow> specifierContext info \<longrightarrow>
      exportsGrow specifierShape st st')"
  "(\<forall>st'. resolveExportsSpecifiers w st info kvs = Inr st' \<longrightarrow>
      (\<forall>k\<in>set (map fst kvs). startsWith k ''.'') \<longrightarrow> exportsGrow specifierShape st st')"
  "(\<forall>st'. specifiersLoop w st info keys kvs i = Inr st' \<longrightarrow>
      (\<forall>k\<in>set (map fst kvs). startsWith k ''.'') \<longrightarrow> exportsGrow specifierShape st st')"
proof (induction w st info v and w st info xs and w st info kvs and w st info kvs
    and w st info kvs i and w st info kvs and w st info keys kvs i rule: walk_induct)
  case (1 w st info exportsValue)
  then show ?case by simp
next
  case (2 w st info exportsValue)
  then show ?case by simp
next
  case (3 w st info)
  show ?case using leaf_exports [of w st info JNull] by simp
next
  case (4 w st info b)
  show ?case using leaf_exports [of w st info "JBool b"] by simp
next
  case (5 w st info n)
  show ?case using leaf_exports [of w st info "JNum n"] by simp
next
  case (6 w st info s)
  show ?case using leaf_exports [of w st info "JStr s"] by simp
next
  case (7 w st info)
  then show ?case by (simp add: exportsGrow_message)
next
  case (8 w st info first others)
  let ?child = "info\<lparr>path := path info @ [Idx 0], pathOrder := pathOrder info @ [0]\<rparr>"
  let ?st0 = "message st [] ''exports-alternatives'' (path info)"
  show ?case
  proof (intro allI impI)
    fix st'
    assume r: "resolveExportsList w st info (first # others) = Inr st'"
      and c: "specifierContext info"
    from r have "resolveExports w ?st0 ?child first = Inr st'" by simp
    moreover from c have "specifierContext ?child" by (simp add: specifierContext_list)
    ultimately have "exportsGrow specifierShape ?st0 st'" using 8 by blast
    then show "exportsGrow specifierShape st st'" by (simp add: exportsGrow_message_left)
  qed
next
  case (9 w st info exportsValue)
  show ?case
  proof (intro allI impI)
    fix st'
    assume r: "resolveExportsObject w st info exportsValue = Inr st'"
      and c: "specifierContext info"
    let ?keys = "map fst exportsValue"
    let ?d = "dotsLoop ?keys None False"
    show "exportsGrow specifierShape st st'"
    proof (cases "fst ?d = None \<or> snd ?d \<or> (the (fst ?d) \<and> specifierSet info)")
      case True
      with r show ?thesis
        by (auto simp: Let_def exportsGrow_message split: if_splits)
    next
      case False
      show ?thesis
      proof (cases "the (fst ?d)")
        case True
        with False have a: "fst ?d \<noteq> None" "\<not> snd ?d" "\<not> (the (fst ?d) \<and> specifierSet info)"
          by simp_all
        from dotsLoop_specifiers [OF a(1,2) True]
        have k: "\<forall>k\<in>set (map fst exportsValue). startsWith k ''.''" .
        from r a True have "resolveExportsSpecifiers w st info exportsValue = Inr st'"
          by (simp add: Let_def)
        with 9(1) [OF refl refl refl a True] k show ?thesis by simp
      next
        case nd: False
        with False have a: "fst ?d \<noteq> None" "\<not> snd ?d" "\<not> (the (fst ?d) \<and> specifierSet info)"
          by simp_all
        from r a nd have "resolveExportsConditions w st info exportsValue = Inr st'"
          by (simp add: Let_def)
        with 9(2) [OF refl refl refl a nd] c show ?thesis by simp
      qed
    qed
  qed
next
  case (10 w st info exportsValue)
  show ?case
  proof (intro allI impI)
    fix st'
    assume r: "resolveExportsConditions w st info exportsValue = Inr st'"
      and c: "specifierContext info"
    let ?st0 = "typesVerbose (conditionsVerbose st info (map fst exportsValue)) info exportsValue"
    from r obtain st1 where
      l: "conditionsLoop w ?st0 info exportsValue 0 = Inr st1"
      and f: "conditionsFinish st1 info (map fst exportsValue) = Inr st'"
      by (auto simp: Let_def split: sum.splits)
    from 10 l c have "exportsGrow specifierShape ?st0 st1" by simp
    then have "exportsGrow specifierShape st st1"
      by (rule exportsGrow_left) (simp add: exports_typesVerbose exports_conditionsVerbose)
    then show "exportsGrow specifierShape st st'"
      by (rule exportsGrow_right) (rule exports_conditionsFinish [OF f])
  qed
next
  case (11 w st info index)
  then show ?case by (simp add: exportsGrow_refl)
next
  case (12 w st info condition "value" rest index)
  let ?child = "info\<lparr>conditions := Some ((case conditions info of None \<Rightarrow> [] | Some active \<Rightarrow> active) @ [condition]),
                     path := path info @ [Key condition], pathOrder := pathOrder info @ [index]\<rparr>"
  show ?case
  proof (intro allI impI)
    fix st'
    assume r: "conditionsLoop w st info ((condition, value) # rest) index = Inr st'"
      and c: "specifierContext info"
    then obtain st1 where
      ch: "resolveExports w (exclusiveChecks st info condition) ?child value = Inr st1"
      and l: "conditionsLoop w st1 info rest (Suc index) = Inr st'"
      by (auto split: sum.splits)
    from c have "specifierContext ?child" by (simp add: specifierContext_conditions)
    with 12(1) ch have "exportsGrow specifierShape (exclusiveChecks st info condition) st1"
      by simp
    then have "exportsGrow specifierShape st st1"
      by (rule exportsGrow_left) (rule exports_exclusiveChecks)
    moreover from 12(2) [OF ch] l c have "exportsGrow specifierShape st1 st'" by simp
    ultimately show "exportsGrow specifierShape st st'" by (rule exportsGrow_trans)
  qed
next
  case (13 w st info exportsValue)
  let ?st0 = "if length (map fst exportsValue) = 1 \<and> hd (map fst exportsValue) = ''.''
        then message st [] ''exports-specifiers-verbose'' (path info) else st"
  show ?case
  proof (intro allI impI)
    fix st'
    assume r: "resolveExportsSpecifiers w st info exportsValue = Inr st'"
      and k: "\<forall>k\<in>set (map fst exportsValue). startsWith k ''.''"
    from r have "specifiersLoop w ?st0 info (map fst exportsValue) exportsValue 0 = Inr st'"
      by (simp add: Let_def)
    with 13 [OF refl] k have "exportsGrow specifierShape ?st0 st'" by blast
    moreover have "exports ?st0 = exports st" by (simp add: message_def)
    ultimately show "exportsGrow specifierShape st st'" by (rule exportsGrow_left)
  qed
next
  case (14 w st info keys index)
  then show ?case by (simp add: exportsGrow_refl)
next
  case (15 w st info keys spec "value" rest index)
  let ?child = "info\<lparr>path := path info @ [Key spec], pathOrder := pathOrder info @ [index],
                     specifier := Some spec\<rparr>"
  show ?case
  proof (intro allI impI)
    fix st'
    assume r: "specifiersLoop w st info keys ((spec, value) # rest) index = Inr st'"
      and k: "\<forall>k\<in>set (map fst ((spec, value) # rest)). startsWith k ''.''"
    then obtain st1 where
      ch: "resolveExports w (extensionCheck st info keys spec) ?child value = Inr st1"
      and l: "specifiersLoop w st1 info keys rest (Suc index) = Inr st'"
      by (auto split: sum.splits)
    from k have "specifierContext ?child" by (simp add: specifierContext_key)
    with 15(1) ch have "exportsGrow specifierShape (extensionCheck st info keys spec) st1"
      by simp
    then have "exportsGrow specifierShape st st1"
      by (rule exportsGrow_left) (rule exports_extensionCheck)
    moreover from 15(2) [OF ch] l k have "exportsGrow specifierShape st1 st'" by simp
    ultimately show "exportsGrow specifierShape st st'" by (rule exportsGrow_trans)
  qed
qed

text \<open>
  C2, as stated, fails.  A dynamic specifier that points to a static file is kept as it
  is written, with its wildcard; and a key counts as a specifier as soon as it starts
  with a dot, so \<open>.internal\<close> is the specifier of an export.
\<close>

theorem C2_specifier_shape_counterexample:
  "map exp_specifier
     (exportsOf (packageExports exampleWorld codeUnitCompare
                   (examplePackage (JObj [(''./*'', JStr ''./index.js'')])) [''index.js''])) =
     [''./*'']
   \<and> \<not> claimedSpecifier ''./*''
   \<and> map exp_specifier
     (exportsOf (packageExports exampleWorld codeUnitCompare
                   (examplePackage (JObj [(''.internal'', JStr ''./index.js'')])) [''index.js''])) =
     [''.internal'']
   \<and> \<not> claimedSpecifier ''.internal''"
  by code_simp

text \<open>
  C2, amended.  Let the walk start without a specifier and return.  Then the exports
  it found are still there, in front, and every export it has added has a specifier
  that starts with a dot; if that specifier has a wildcard, then either the export was
  made from a wildcard pattern and the wildcard is part of the replacement, taken from
  the name of a packed file, or the export is the one of a dynamic specifier that points
  to a static file: the specifier has exactly one wildcard and the file path has none.
\<close>

theorem C2_specifier_shape:
  assumes "resolveExports w st info exportsValue = Inr st'" and "specifier info = None"
  shows "take (length (exports st)) (exports st') = exports st
       \<and> list_all specifierShape (drop (length (exports st)) (exports st'))"
proof -
  from assms(2) have "specifierContext info"
    by (simp add: specifierContext_def specifierOrDot_def startsWith_def)
  with walk_exports(1) assms(1) have "exportsGrow specifierShape st st'" by blast
  then show ?thesis by (auto simp: exportsGrow_def)
qed


theorem C2_specifier_shape_witness:
  "resolveExports exampleWorld (emptyState [''./index.js''])
     (rootInfo [Key ''exports''] [0] None) (JObj [(''./*'', JStr ''./index.js'')]) =
   Inr \<lparr>exports =
          [\<lparr>exp_conditions = None, exp_exists = True, exp_filePath = ''./index.js'',
            exp_globbed = False, exp_jsonPath = [Key ''exports'', Key ''./*''],
            exp_jsonPathOrder = [0, 0], exp_specifier = ''./*'',
            exp_url = ''file:///package/./index.js''\<rparr>],
         negatedExports = [], packagedFiles = [''./index.js''],
         messages = [\<lparr>msg_ruleId = ''exports-specifier-wildcard-useless'',
                      msg_jsonPath = [Key ''exports'', Key ''./*''],
                      msg_reason = [''./*'', ''./index.js'']\<rparr>]\<rparr>
   \<and> list_all specifierShape
        [\<lparr>exp_conditions = None, exp_exists = True, exp_filePath = ''./index.js'',
          exp_globbed = False, exp_jsonPath = [Key ''exports'', Key ''./*''],
          exp_jsonPathOrder = [0, 0], exp_specifier = ''./*'',
          exp_url = ''file:///package/./index.js''\<rparr>]"
proof -
  let ?st = "emptyState [''./index.js'']"
  let ?info = "rootInfo [Key ''exports''] [0] None"
  let ?es = "[\<lparr>exp_conditions = None, exp_exists = True, exp_filePath = ''./index.js'',
          exp_globbed = False, exp_jsonPath = [Key ''exports'', Key ''./*''],
          exp_jsonPathOrder = [0, 0], exp_specifier = ''./*'',
          exp_url = ''file:///package/./index.js''\<rparr>]"
  let ?st1 = "\<lparr>exports = ?es, negatedExports = [], packagedFiles = [''./index.js''],
         messages = [\<lparr>msg_ruleId = ''exports-specifier-wildcard-useless'',
                      msg_jsonPath = [Key ''exports'', Key ''./*''],
                      msg_reason = [''./*'', ''./index.js'']\<rparr>]\<rparr>"
  have run: "resolveExports exampleWorld ?st ?info (JObj [(''./*'', JStr ''./index.js'')]) = Inr ?st1"
    by code_simp
  have s: "specifier ?info = None" by (simp add: rootInfo_def)
  from C2_specifier_shape [OF run s] have "list_all specifierShape ?es"
    by (simp add: emptyState_def)
  with run show ?thesis by (intro conjI)
qed

end
